theory Spec2Isabelle
  imports Main "HOL-Library.Finite_Map" "HOL-Library.Multiset" "HOL-Library.Sublist"
begin

section \<open>Strings and formatting helpers\<close>

text \<open>
  Go strings are byte sequences; they are modelled as \<open>string\<close> (a list of 8-bit
  characters).  The helpers below model the parts of the Go standard library the
  generator calls: \<open>fmt.Sprintf("%d", i)\<close> on a non-negative integer and
  \<open>strings.LastIndex\<close> with the one-byte separator \<open>"/"\<close>.
\<close>

definition digit_char :: "nat \<Rightarrow> char" where
  "digit_char d = ''0123456789'' ! d"

fun itoa :: "nat \<Rightarrow> string" where
  "itoa n = (if n < 10 then [digit_char n] else itoa (n div 10) @ [digit_char (n mod 10)])"

declare itoa.simps [simp del]

definition dquote :: char where
  "dquote = CHR 0x22"

text \<open>\<open>strings.LastIndex(s, sep)\<close> for a one-byte \<open>sep\<close>: the index of the last
  occurrence, or \<open>-1\<close>.\<close>

primrec LastIndex :: "string \<Rightarrow> char \<Rightarrow> int" where
  "LastIndex [] sep = -1"
| "LastIndex (c # cs) sep =
     (let r = LastIndex cs sep in
      if r \<noteq> -1 then r + 1 else if c = sep then 0 else -1)"

section \<open>The import store (import.go)\<close>

record ImportStore =
  importPath2pkgName :: "(string, string) fmap"
  pkgName2importExpr :: "(string, string) fmap"

definition NewImportStore :: ImportStore where
  "NewImportStore = \<lparr>importPath2pkgName = fmempty, pkgName2importExpr = fmempty\<rparr>"

definition getPackageName :: "string \<Rightarrow> string" where
  "getPackageName importPath =
     (let lastIndex = LastIndex importPath (CHR ''/'') in
      if lastIndex = -1 then importPath
      else drop (nat (lastIndex + 1)) importPath)"

text \<open>
  The name-conflict loop of \<open>AddImport\<close>: starting from \<open>i\<close>, the candidate
  \<open>pkgName ++ decimal i\<close> is tried and \<open>i\<close> incremented until the candidate is not a
  key of \<open>pkgName2importExpr\<close>.  The counter is a Go \<open>int\<close>; it is modelled as a
  natural number, since wrapping it would take a map of more than \<open>2^63\<close> entries.
\<close>

function newPkgName_loop :: "(string, string) fmap \<Rightarrow> string \<Rightarrow> nat \<Rightarrow> string" where
  "newPkgName_loop exprs pkgName i =
     (let newPkgName = pkgName @ itoa i in
      if fmlookup exprs newPkgName = None then newPkgName
      else newPkgName_loop exprs pkgName (i + 1))"
  by pat_completeness auto

lemma digit_char_inj: "a < 10 \<Longrightarrow> b < 10 \<Longrightarrow> digit_char a = digit_char b \<Longrightarrow> a = b"
proof -
  assume a: "a < 10" and b: "b < 10" and e: "digit_char a = digit_char b"
  have d: "distinct ''0123456789''" by simp
  have l: "length ''0123456789'' = 10" by simp
  from e have "''0123456789'' ! a = ''0123456789'' ! b" by (simp only: digit_char_def)
  with d a b l show "a = b" by (simp only: nth_eq_iff_index_eq)
qed

lemma itoa_not_Nil: "itoa n \<noteq> []"
  by (subst itoa.simps) simp

lemma itoa_inj: "itoa n = itoa m \<Longrightarrow> n = m"
proof (induction n arbitrary: m rule: itoa.induct)
  case (1 n)
  show ?case
  proof (cases "n < 10")
    case True
    then have n1: "itoa n = [digit_char n]" by (subst itoa.simps) simp
    show ?thesis
    proof (cases "m < 10")
      case mt: True
      then have "itoa m = [digit_char m]" by (subst itoa.simps) simp
      with n1 "1.prems" have "digit_char n = digit_char m" by simp
      with True mt show ?thesis by (rule digit_char_inj)
    next
      case False
      then have "itoa m = itoa (m div 10) @ [digit_char (m mod 10)]"
        by (subst itoa.simps) simp
      with n1 "1.prems" have "itoa (m div 10) = []" by simp
      with itoa_not_Nil show ?thesis by blast
    qed
  next
    case False
    then have n2: "itoa n = itoa (n div 10) @ [digit_char (n mod 10)]"
      by (subst itoa.simps) simp
    show ?thesis
    proof (cases "m < 10")
      case True
      then have "itoa m = [digit_char m]" by (subst itoa.simps) simp
      with n2 "1.prems" have "itoa (n div 10) = []" by simp
      with itoa_not_Nil show ?thesis by blast
    next
      case mf: False
      then have "itoa m = itoa (m div 10) @ [digit_char (m mod 10)]"
        by (subst itoa.simps) simp
      with n2 "1.prems" have e: "itoa (n div 10) = itoa (m div 10)"
        and d: "digit_char (n mod 10) = digit_char (m mod 10)" by simp_all
      from "1.IH" [OF False e] have q: "n div 10 = m div 10" .
      have "n mod 10 < 10" "m mod 10 < 10" by simp_all
      then have r: "n mod 10 = m mod 10" using d by (rule digit_char_inj)
      have "n = 10 * (n div 10) + n mod 10" by simp
      also have "\<dots> = 10 * (m div 10) + m mod 10" by (simp only: q r)
      also have "\<dots> = m" by simp
      finally show ?thesis .
    qed
  qed
qed

lemma finite_used_candidates:
  "finite {j. i \<le> j \<and> fmlookup exprs (pkgName @ itoa j) \<noteq> None}"
proof -
  have inj: "inj (\<lambda>j. pkgName @ itoa j)"
    by (rule injI) (simp add: itoa_inj)
  have "finite ((\<lambda>j. pkgName @ itoa j) -` fmdom' exprs)"
    by (rule finite_vimageI [OF _ inj]) simp
  moreover have "{j. i \<le> j \<and> fmlookup exprs (pkgName @ itoa j) \<noteq> None}
      \<subseteq> (\<lambda>j. pkgName @ itoa j) -` fmdom' exprs"
    by (auto simp: fmlookup_dom'_iff)
  ultimately show ?thesis by (rule rev_finite_subset)
qed

termination newPkgName_loop
proof (relation "measure (\<lambda>(exprs, pkgName, i).
         card {j. i \<le> j \<and> fmlookup exprs (pkgName @ itoa j) \<noteq> None})")
  show "wf (measure (\<lambda>(exprs, pkgName, i).
         card {j. i \<le> j \<and> fmlookup exprs (pkgName @ itoa j) \<noteq> None}))"
    by simp
next
  fix exprs :: "(string, string) fmap" and pkgName :: string and i :: nat and x :: string
  assume x: "x = pkgName @ itoa i" and used: "fmlookup exprs x \<noteq> None"
  let ?A = "{j. i + 1 \<le> j \<and> fmlookup exprs (pkgName @ itoa j) \<noteq> None}"
  let ?B = "{j. i \<le> j \<and> fmlookup exprs (pkgName @ itoa j) \<noteq> None}"
  have sub: "?A \<subseteq> ?B" by auto
  have "i \<in> ?B" using x used by simp
  moreover have "i \<notin> ?A" by simp
  ultimately have "?A \<noteq> ?B" by blast
  with sub have "?A \<subset> ?B" by blast
  then have "card {j. i + 1 \<le> j \<and> fmlookup exprs (pkgName @ itoa j) \<noteq> None}
      < card {j. i \<le> j \<and> fmlookup exprs (pkgName @ itoa j) \<noteq> None}"
    by (rule psubset_card_mono [OF finite_used_candidates])
  then show "((exprs, pkgName, i + 1), (exprs, pkgName, i))
      \<in> measure (\<lambda>(exprs, pkgName, i).
         card {j. i \<le> j \<and> fmlookup exprs (pkgName @ itoa j) \<noteq> None})"
    by simp
qed

declare newPkgName_loop.simps [simp del]

text \<open>
  \<open>AddImport\<close> mutates the store in place and returns the package name to use; the
  model returns the name together with the updated store.  The two \<open>fmt.Sprintf\<close>
  calls build \<open>"path"\<close> and \<open>"path" alias\<close>.
\<close>

definition AddImport :: "ImportStore \<Rightarrow> string \<Rightarrow> string \<times> ImportStore" where
  "AddImport store importPath =
     (case fmlookup (importPath2pkgName store) importPath of
        Some pkgName \<Rightarrow> (pkgName, store)
      | None \<Rightarrow>
          (let pkgName = getPackageName importPath in
           if fmlookup (pkgName2importExpr store) pkgName = None then
             (pkgName,
              store\<lparr>pkgName2importExpr :=
                       fmupd pkgName ([dquote] @ importPath @ [dquote]) (pkgName2importExpr store),
                     importPath2pkgName :=
                       fmupd importPath pkgName (importPath2pkgName store)\<rparr>)
           else
             (let newPkgName = newPkgName_loop (pkgName2importExpr store) pkgName 2 in
              (newPkgName,
               store\<lparr>pkgName2importExpr :=
                        fmupd newPkgName ([dquote] @ importPath @ [dquote] @ '' '' @ newPkgName)
                          (pkgName2importExpr store),
                      importPath2pkgName :=
                        fmupd importPath newPkgName (importPath2pkgName store)\<rparr>))))"

text \<open>
  \<open>gmap.Values\<close> ranges over a Go map and appends every value to a slice.  The
  iteration order of a Go map is not specified and may differ from one iteration to
  the next, so the result is modelled as a relation: any list holding the value of
  every key exactly once is a possible return.
\<close>

definition Values :: "(string, string) fmap \<Rightarrow> string list \<Rightarrow> bool" where
  "Values m vs \<longleftrightarrow> mset vs = image_mset (\<lambda>k. the (fmlookup m k)) (mset_set (fmdom' m))"

definition DumpImportExprs :: "ImportStore \<Rightarrow> string list \<Rightarrow> bool" where
  "DumpImportExprs store vs \<longleftrightarrow> Values (pkgName2importExpr store) vs"

text \<open>A sequence of \<open>AddImport\<close> calls on one store, the returned names dropped.\<close>

fun AddImports :: "ImportStore \<Rightarrow> string list \<Rightarrow> ImportStore" where
  "AddImports store [] = store"
| "AddImports store (p # ps) = AddImports (snd (AddImport store p)) ps"

section \<open>The identifier sanitizer (utils.go, IdentifiableTypeName)\<close>

text \<open>
  \<open>strings.HasPrefix\<close>, and \<open>strings.ReplaceAll(s, old, new)\<close>, which replaces the
  non-overlapping occurrences of \<open>old\<close> from left to right.  Every call in the
  sanitizer passes a non-empty literal as \<open>old\<close>; Go's insertion of \<open>new\<close> around
  every rune for an empty \<open>old\<close> is not modelled (the model returns \<open>s\<close> there).
\<close>

definition HasPrefix :: "string \<Rightarrow> string \<Rightarrow> bool" where
  "HasPrefix s p = prefix p s"

function ReplaceAll :: "string \<Rightarrow> string \<Rightarrow> string \<Rightarrow> string" where
  "ReplaceAll [] old new = []"
| "ReplaceAll (c # cs) old new =
     (if old \<noteq> [] \<and> prefix old (c # cs)
      then new @ ReplaceAll (drop (length old) (c # cs)) old new
      else c # ReplaceAll cs old new)"
  by pat_completeness auto
termination
  by (relation "measure (\<lambda>(s, old, new). length s)") auto

text \<open>
  \<open>arrayRegex\<close> is \<open>\[(\d+)\]\<close>.  A match at the head of \<open>s\<close> is an opening bracket,
  the longest run of ASCII digits (at least one) and a closing bracket; no shorter run
  of digits can be followed by the bracket.  \<open>arrayRegex_match\<close> returns the digits and
  the text after the match.  \<open>ReplaceAllString\<close> with the template \<open>arr${1}Of\<close>
  replaces the leftmost match, continues after it, and copies every byte at which no
  match starts.
\<close>

definition is_digit :: "char \<Rightarrow> bool" where
  "is_digit c \<longleftrightarrow> c \<in> set ''0123456789''"

definition arrayRegex_match :: "string \<Rightarrow> (string \<times> string) option" where
  "arrayRegex_match s =
     (case s of
        [] \<Rightarrow> None
      | c # cs \<Rightarrow>
          if c = CHR ''['' then
            (let ds = takeWhile is_digit cs; r = dropWhile is_digit cs in
             case r of
               [] \<Rightarrow> None
             | d # rest \<Rightarrow> if ds \<noteq> [] \<and> d = CHR '']'' then Some (ds, rest) else None)
          else None)"

lemma arrayRegex_match_shorter:
  "arrayRegex_match s = Some (ds, rest) \<Longrightarrow> length rest < length s"
proof -
  assume a: "arrayRegex_match s = Some (ds, rest)"
  then obtain c cs where s: "s = c # cs" by (cases s) (simp_all add: arrayRegex_match_def)
  from a s obtain d where "dropWhile is_digit cs = d # rest"
    by (auto simp: arrayRegex_match_def Let_def split: if_splits list.splits)
  then have "length (d # rest) \<le> length cs"
    using length_dropWhile_le [of is_digit cs] by simp
  with s show ?thesis by simp
qed

function arrayRegex_ReplaceAll :: "string \<Rightarrow> string" where
  "arrayRegex_ReplaceAll [] = []"
| "arrayRegex_ReplaceAll (c # cs) =
     (case arrayRegex_match (c # cs) of
        Some (ds, rest) \<Rightarrow> ''arr'' @ ds @ ''Of'' @ arrayRegex_ReplaceAll rest
      | None \<Rightarrow> c # arrayRegex_ReplaceAll cs)"
  by pat_completeness auto
termination
  by (relation "measure length") (auto dest: arrayRegex_match_shorter)

text \<open>
  \<open>mapRegex\<close> is \<open>map\[([^\]]+)\](.*)\<close>.  A match at the head of \<open>s\<close> is the text
  \<open>map[\<close>, the longest run of bytes other than the closing bracket (at least one),
  the closing bracket, and the rest of the line: the dot matches every character but
  the newline.  \<open>mapRegex_match\<close> returns the two groups and the text after the match;
  the template is \<open>map${1}To${2}\<close>.
\<close>

definition mapRegex_match :: "string \<Rightarrow> (string \<times> string \<times> string) option" where
  "mapRegex_match s =
     (if prefix ''map['' s then
        (let t = drop 4 s;
             k = takeWhile (\<lambda>c. c \<noteq> CHR '']'') t;
             r = dropWhile (\<lambda>c. c \<noteq> CHR '']'') t in
         case r of
           [] \<Rightarrow> None
         | d # r' \<Rightarrow>
             if k \<noteq> [] then
               Some (k, takeWhile (\<lambda>c. c \<noteq> CHR 0x0A) r', dropWhile (\<lambda>c. c \<noteq> CHR 0x0A) r')
             else None)
      else None)"

lemma mapRegex_match_shorter:
  "mapRegex_match s = Some (k, v, rest) \<Longrightarrow> length rest < length s"
proof -
  assume a: "mapRegex_match s = Some (k, v, rest)"
  then have p: "prefix ''map['' s" by (simp add: mapRegex_match_def split: if_splits)
  from a p obtain d r' where r: "dropWhile (\<lambda>c. c \<noteq> CHR '']'') (drop 4 s) = d # r'"
    and rest: "rest = dropWhile (\<lambda>c. c \<noteq> CHR 0x0A) r'"
    by (auto simp: mapRegex_match_def Let_def split: if_splits list.splits)
  have "length rest \<le> length r'" unfolding rest by (rule length_dropWhile_le)
  moreover have "length (d # r') \<le> length (drop 4 s)"
    using length_dropWhile_le [of "\<lambda>c. c \<noteq> CHR '']''" "drop 4 s"] r by simp
  ultimately show ?thesis by simp
qed

function mapRegex_ReplaceAll :: "string \<Rightarrow> string" where
  "mapRegex_ReplaceAll [] = []"
| "mapRegex_ReplaceAll (c # cs) =
     (case mapRegex_match (c # cs) of
        Some (k, v, rest) \<Rightarrow> ''map'' @ k @ ''To'' @ v @ mapRegex_ReplaceAll rest
      | None \<Rightarrow> c # mapRegex_ReplaceAll cs)"
  by pat_completeness auto
termination
  by (relation "measure length") (auto dest: mapRegex_match_shorter)

text \<open>
  \<open>cleanRegex\<close> is \<open>[^a-zA-Z0-9_]\<close>; replacing its matches by the empty string keeps
  exactly the bytes of the class.  (A rune outside ASCII, or an invalid byte, consists
  of bytes outside the class and is removed whole.)
\<close>

definition is_ident_char :: "char \<Rightarrow> bool" where
  "is_ident_char c \<longleftrightarrow>
     c \<in> set (''abcdefghijklmnopqrstuvwxyz'' @ ''ABCDEFGHIJKLMNOPQRSTUVWXYZ''
              @ ''0123456789'' @ ''_'')"

definition cleanRegex_ReplaceAll :: "string \<Rightarrow> string" where
  "cleanRegex_ReplaceAll s = filter is_ident_char s"

definition IdentifiableTypeName :: "string \<Rightarrow> string" where
  "IdentifiableTypeName typ0 =
     (let typ = ReplaceAll typ0 ''*'' ''pointerOf'';
          typ = ReplaceAll typ ''[]'' ''sliceOf'';
          typ = arrayRegex_ReplaceAll typ;
          typ = mapRegex_ReplaceAll typ;
          typ = ReplaceAll typ ''chan<-'' ''sendChanOf'';
          typ = ReplaceAll typ ''<-chan'' ''recvChanOf'';
          typ = ReplaceAll typ ''chan '' ''chanOf'';
          typ = (if HasPrefix typ ''func('' then
                   ReplaceAll (ReplaceAll typ ''func('' ''funcWith'') '')'' ''''
                 else typ);
          typ = ReplaceAll typ ''interface{}'' ''any'';
          typ = ReplaceAll typ '' '' ''_'';
          typ = ReplaceAll typ ''.'' ''_''
      in cleanRegex_ReplaceAll typ)"

section \<open>Canonical type names (utils.go, getTypeName)\<close>

text \<open>
  \<open>getTypeName\<close> is modelled in its current form, which takes the path of the package
  being scanned (\<open>currentPkgPath\<close>), as the tests of the repository call it.

  The values of \<open>go/types\<close> that \<open>getTypeName\<close> inspects.  A named type carries the
  \<open>*types.TypeName\<close> returned by \<open>Obj()\<close> (possibly nil), whose \<open>Pkg()\<close> is nil for
  predeclared types and otherwise has an import path.  A signature, an anonymous
  struct or interface and any other type carry the text of their \<open>String()\<close>.
\<close>

record TypeName =
  obj_Name :: string
  obj_Pkg :: "string option"

datatype BasicKind = UnsafePointer | OtherKind

datatype ChanDir = SendRecv | SendOnly | RecvOnly

datatype Type =
    Named "TypeName option"
  | Basic BasicKind string
  | Pointer Type
  | Slice Type
  | Array int Type
  | Map Type Type
  | Chan ChanDir Type
  | Signature string
  | Struct string
  | Interface string
  | OtherType string

text \<open>\<open>fmt.Sprintf("%d", n)\<close> for a signed integer.\<close>

definition itoa_int :: "int \<Rightarrow> string" where
  "itoa_int n = (if n < 0 then ''-'' @ itoa (nat (- n)) else itoa (nat n))"

fun getTypeName :: "Type \<Rightarrow> string \<Rightarrow> ImportStore \<Rightarrow> string \<times> ImportStore" where
  "getTypeName (Named obj) currentPkgPath importStore =
     (case obj of
        None \<Rightarrow> ('''', importStore)
      | Some tn \<Rightarrow>
          (case obj_Pkg tn of
             None \<Rightarrow> (obj_Name tn, importStore)
           | Some packagePath \<Rightarrow>
               if packagePath \<noteq> currentPkgPath then
                 (let (pkgName, store') = AddImport importStore packagePath
                  in (pkgName @ ''.'' @ obj_Name tn, store'))
               else (obj_Name tn, importStore)))"
| "getTypeName (Basic kind name) currentPkgPath importStore =
     (if kind = UnsafePointer then
        (let (pkgName, store') = AddImport importStore ''unsafe''
         in (pkgName @ ''.'' @ name, store'))
      else (name, importStore))"
| "getTypeName (Pointer elem) currentPkgPath importStore =
     (let (elemTypeName, store') = getTypeName elem currentPkgPath importStore
      in (''*'' @ elemTypeName, store'))"
| "getTypeName (Slice elem) currentPkgPath importStore =
     (let (elemTypeName, store') = getTypeName elem currentPkgPath importStore
      in (''[]'' @ elemTypeName, store'))"
| "getTypeName (Array len elem) currentPkgPath importStore =
     (let (elemTypeName, store') = getTypeName elem currentPkgPath importStore
      in (''['' @ itoa_int len @ '']'' @ elemTypeName, store'))"
| "getTypeName (Map key elem) currentPkgPath importStore =
     (let (keyTypeName, store') = getTypeName key currentPkgPath importStore;
          (elemTypeName, store'') = getTypeName elem currentPkgPath store'
      in (''map['' @ keyTypeName @ '']'' @ elemTypeName, store''))"
| "getTypeName (Chan dir elem) currentPkgPath importStore =
     (let (elemTypeName, store') = getTypeName elem currentPkgPath importStore;
          d = (case dir of SendRecv \<Rightarrow> ''chan '' | SendOnly \<Rightarrow> ''chan<- '' | RecvOnly \<Rightarrow> ''<-chan '')
      in (d @ elemTypeName, store'))"
| "getTypeName (Signature str) currentPkgPath importStore = (str, importStore)"
| "getTypeName (Struct str) currentPkgPath importStore = (str, importStore)"
| "getTypeName (Interface str) currentPkgPath importStore = (str, importStore)"
| "getTypeName (OtherType str) currentPkgPath importStore = (str, importStore)"

section \<open>Syntax trees (go/ast as used by utils.go)\<close>

text \<open>
  \<open>strings.TrimSpace\<close> removes leading and trailing white space as defined by
  Unicode.  \<open>space_runes\<close> lists the UTF-8 encodings of the code points for which
  \<open>unicode.IsSpace\<close> holds: U+0009 to U+000D, U+0020, U+0085, U+00A0, U+1680,
  U+2000 to U+200A, U+2028, U+2029, U+202F, U+205F and U+3000.
\<close>

definition space_runes :: "string list" where
  "space_runes =
     [[CHR 0x09], [CHR 0x0A], [CHR 0x0B], [CHR 0x0C], [CHR 0x0D], [CHR 0x20],
      [CHR 0xC2, CHR 0x85], [CHR 0xC2, CHR 0xA0],
      [CHR 0xE1, CHR 0x9A, CHR 0x80],
      [CHR 0xE2, CHR 0x80, CHR 0x80], [CHR 0xE2, CHR 0x80, CHR 0x81],
      [CHR 0xE2, CHR 0x80, CHR 0x82], [CHR 0xE2, CHR 0x80, CHR 0x83],
      [CHR 0xE2, CHR 0x80, CHR 0x84], [CHR 0xE2, CHR 0x80, CHR 0x85],
      [CHR 0xE2, CHR 0x80, CHR 0x86], [CHR 0xE2, CHR 0x80, CHR 0x87],
      [CHR 0xE2, CHR 0x80, CHR 0x88], [CHR 0xE2, CHR 0x80, CHR 0x89],
      [CHR 0xE2, CHR 0x80, CHR 0x8A],
      [CHR 0xE2, CHR 0x80, CHR 0xA8], [CHR 0xE2, CHR 0x80, CHR 0xA9],
      [CHR 0xE2, CHR 0x80, CHR 0xAF], [CHR 0xE2, CHR 0x81, CHR 0x9F],
      [CHR 0xE3, CHR 0x80, CHR 0x80]]"

definition leading_space :: "string \<Rightarrow> nat" where
  "leading_space s = (case find (\<lambda>r. prefix r s) space_runes of None \<Rightarrow> 0 | Some r \<Rightarrow> length r)"

definition trailing_space :: "string \<Rightarrow> nat" where
  "trailing_space s = (case find (\<lambda>r. suffix r s) space_runes of None \<Rightarrow> 0 | Some r \<Rightarrow> length r)"

lemma leading_space_le: "leading_space s \<le> length s"
  by (auto simp: leading_space_def find_Some_iff prefix_length_le split: option.splits)

lemma trailing_space_le: "trailing_space s \<le> length s"
  by (auto simp: trailing_space_def find_Some_iff suffix_length_le split: option.splits)

function TrimLeft :: "string \<Rightarrow> string" where
  "TrimLeft s = (if leading_space s = 0 then s else TrimLeft (drop (leading_space s) s))"
  by pat_completeness auto
termination
proof (relation "measure length")
  show "wf (measure length)" by simp
next
  fix s :: string
  assume "leading_space s \<noteq> 0"
  moreover have "leading_space s \<le> length s" by (rule leading_space_le)
  ultimately show "(drop (leading_space s) s, s) \<in> measure length" by simp
qed

function TrimRight :: "string \<Rightarrow> string" where
  "TrimRight s =
     (if trailing_space s = 0 then s else TrimRight (take (length s - trailing_space s) s))"
  by pat_completeness auto
termination
proof (relation "measure length")
  show "wf (measure length)" by simp
next
  fix s :: string
  assume "trailing_space s \<noteq> 0"
  moreover have "trailing_space s \<le> length s" by (rule trailing_space_le)
  ultimately show "(take (length s - trailing_space s) s, s) \<in> measure length" by simp
qed

declare TrimLeft.simps [simp del] TrimRight.simps [simp del]

definition TrimSpace :: "string \<Rightarrow> string" where
  "TrimSpace s = TrimRight (TrimLeft s)"

text \<open>
  The part of \<open>go/ast\<close> the scanner looks at.  A node is a general declaration
  (\<open>*ast.GenDecl\<close>), a function declaration (\<open>*ast.FuncDecl\<close>) or any other node, and
  has the child nodes \<open>ast.Inspect\<close> visits below it, in order.  A comment group is
  the list of the texts of its comments.
\<close>

datatype Token = token_TYPE | token_IMPORT | token_CONST | token_VAR

datatype Expr = StructType | InterfaceType | OtherExpr

record TypeSpec =
  ts_Name :: string
  ts_Assign :: bool
  ts_Type :: Expr

datatype Spec = TypeSpecNode TypeSpec | OtherSpec

record GenDecl =
  gd_Tok :: Token
  gd_Doc :: "string list option"
  gd_Specs :: "Spec list"

record FuncDecl =
  fd_NamePos :: int
  fd_Doc :: "string list option"

datatype Node =
    GenDeclNode GenDecl "Node list"
  | FuncDeclNode FuncDecl "Node list"
  | OtherNode "Node list"

text \<open>
  \<open>ast.Inspect(root, f)\<close> calls \<open>f\<close> on the nodes in depth-first order and visits the
  children of a node only when \<open>f\<close> returned true for it.  The callbacks of this
  program are closures over local variables; the model passes those variables as a
  state \<open>'s\<close>.  (The closing call \<open>f(nil)\<close> changes no variable in either callback.)
\<close>

fun Inspect :: "('s \<Rightarrow> Node \<Rightarrow> 's \<times> bool) \<Rightarrow> Node \<Rightarrow> 's \<Rightarrow> 's"
  and InspectList :: "('s \<Rightarrow> Node \<Rightarrow> 's \<times> bool) \<Rightarrow> Node list \<Rightarrow> 's \<Rightarrow> 's" where
  "Inspect f (GenDeclNode d ns) s =
     (let (s', descend) = f s (GenDeclNode d ns) in if descend then InspectList f ns s' else s')"
| "Inspect f (FuncDeclNode d ns) s =
     (let (s', descend) = f s (FuncDeclNode d ns) in if descend then InspectList f ns s' else s')"
| "Inspect f (OtherNode ns) s =
     (let (s', descend) = f s (OtherNode ns) in if descend then InspectList f ns s' else s')"
| "InspectList f [] s = s"
| "InspectList f (n # ns) s = InspectList f ns (Inspect f n s)"

text \<open>
  A file (\<open>*ast.File\<close>) has its position range and the nodes below it; the file node
  itself is visited first and is neither a \<open>GenDecl\<close> nor a \<open>FuncDecl\<close>.
\<close>

record File =
  file_Pos :: int
  file_End :: int
  file_Nodes :: "Node list"

definition file_node :: "File \<Rightarrow> Node" where
  "file_node file = OtherNode (file_Nodes file)"

section \<open>Packages (go/types and go/packages as used by utils.go)\<close>

text \<open>
  What \<open>FindMethods\<close> reads from the type checker: a variable (\<open>*types.Var\<close>) has a
  name and a type; the signature of a method has the type of its receiver, its
  parameters, its results and the variadic flag; a method (\<open>*types.Func\<close>) has a name,
  the answer of \<open>Exported()\<close> (whether the name starts with an upper-case letter), the
  position of its name and its signature.  A scope maps a name to an object, whose
  type is a named type with its methods in declaration order, or some other type.  A
  package has the path of its \<open>Types\<close>, their scope and its syntax trees.
\<close>

record Var =
  var_Name :: string
  var_Type :: Type

record SignatureInfo =
  sig_Recv :: Type
  sig_Params :: "Var list"
  sig_Results :: "Var list"
  sig_Variadic :: bool

record Func =
  func_Name :: string
  func_Exported :: bool
  func_Pos :: int
  func_Sig :: SignatureInfo

datatype Object = NamedObject "Func list" | OtherObject

record Package =
  pkg_Path :: string
  pkg_Scope :: "string \<Rightarrow> Object option"
  pkg_Syntax :: "File list"

section \<open>Declaration scanning (utils.go, FindStruct)\<close>

text \<open>The two loops in the callback of \<open>FindStruct\<close>: over the specs, inside the loop
  over the comments of the doc group.\<close>

fun specs_loop :: "Spec list \<Rightarrow> TypeSpec option" where
  "specs_loop [] = None"
| "specs_loop (TypeSpecNode typeSpec # specs) =
     (if ts_Type typeSpec = StructType then Some typeSpec else specs_loop specs)"
| "specs_loop (OtherSpec # specs) = specs_loop specs"

fun comments_loop :: "string \<Rightarrow> string list \<Rightarrow> Spec list \<Rightarrow> TypeSpec option" where
  "comments_loop commentPatten [] specs = None"
| "comments_loop commentPatten (comment # comments) specs =
     (if TrimSpace comment = commentPatten then
        (case specs_loop specs of
           Some typeSpec \<Rightarrow> Some typeSpec
         | None \<Rightarrow> comments_loop commentPatten comments specs)
      else comments_loop commentPatten comments specs)"

text \<open>The callback passed to \<open>ast.Inspect\<close>; its state is the variable
  \<open>targetStruct\<close> (\<open>None\<close> for nil), and the boolean is what the callback returns.\<close>

fun FindStruct_visit :: "string \<Rightarrow> TypeSpec option \<Rightarrow> Node \<Rightarrow> TypeSpec option \<times> bool" where
  "FindStruct_visit commentPatten (Some t) n = (Some t, False)"
| "FindStruct_visit commentPatten None (GenDeclNode genDecl ns) =
     (if gd_Tok genDecl \<noteq> token_TYPE then (None, True)
      else
        (case gd_Doc genDecl of
           None \<Rightarrow> (None, True)
         | Some comments \<Rightarrow>
             (case comments_loop commentPatten comments (gd_Specs genDecl) of
                Some typeSpec \<Rightarrow> (Some typeSpec, False)
              | None \<Rightarrow> (None, True))))"
| "FindStruct_visit commentPatten None n = (None, True)"

definition FindStruct :: "Package \<Rightarrow> string \<Rightarrow> TypeSpec option" where
  "FindStruct pkg commentPatten =
     fold (\<lambda>file targetStruct. Inspect (FindStruct_visit commentPatten) (file_node file) targetStruct)
       (pkg_Syntax pkg) None"

section \<open>Method scanning (utils.go, FindMethods and findFuncDoc)\<close>

record Param =
  Param_Name :: string
  Param_Type :: string

record Result =
  Result_Type :: string

record Method =
  ReceiverType :: string
  Name :: string
  Params :: "Param list"
  Results :: "Result list"
  IsVariadic :: bool
  Doc :: string

text \<open>\<open>strings.Join\<close> and \<open>strings.TrimPrefix\<close>.\<close>

fun Join :: "string list \<Rightarrow> string \<Rightarrow> string" where
  "Join [] sep = []"
| "Join [x] sep = x"
| "Join (x # y # ys) sep = x @ sep @ Join (y # ys) sep"

definition TrimPrefix :: "string \<Rightarrow> string \<Rightarrow> string" where
  "TrimPrefix s p = (if HasPrefix s p then drop (length p) s else s)"

text \<open>The callback of \<open>findFuncDoc\<close>; its state is the pair of the local variables
  \<open>doc\<close> and \<open>found\<close>.\<close>

fun findFuncDoc_visit :: "int \<Rightarrow> string \<times> bool \<Rightarrow> Node \<Rightarrow> (string \<times> bool) \<times> bool" where
  "findFuncDoc_visit pos (doc, found) (FuncDeclNode fd ns) =
     (if found then ((doc, found), False)
      else if fd_NamePos fd = pos then
        (((case fd_Doc fd of
             None \<Rightarrow> doc
           | Some comments \<Rightarrow> Join comments [CHR 0x0A]), True), False)
      else ((doc, found), True))"
| "findFuncDoc_visit pos (doc, found) n =
     (if found then ((doc, found), False) else ((doc, found), True))"

fun findFuncDoc_files :: "File list \<Rightarrow> int \<Rightarrow> string" where
  "findFuncDoc_files [] pos = ''''"
| "findFuncDoc_files (file # files) pos =
     (if file_Pos file \<le> pos \<and> pos < file_End file then
        (let (doc, found) = Inspect (findFuncDoc_visit pos) (file_node file) ('''', False)
         in if found then doc else findFuncDoc_files files pos)
      else findFuncDoc_files files pos)"

definition findFuncDoc :: "Package \<Rightarrow> int \<Rightarrow> string" where
  "findFuncDoc pkg pos = findFuncDoc_files (pkg_Syntax pkg) pos"

text \<open>
  A call of \<open>Name()\<close> on a nil \<open>*types.TypeName\<close> dereferences a nil pointer; the
  receiver code of \<open>FindMethods\<close> makes that call without a guard, so the model of
  \<open>FindMethods\<close> returns an error or the methods together with the updated store.
\<close>

datatype error = NilPointerDereference

definition FindMethods_receiver :: "Type \<Rightarrow> error + string" where
  "FindMethods_receiver receiverType =
     (case receiverType of
        Pointer elem \<Rightarrow>
          (case elem of
             Named obj \<Rightarrow>
               (case obj of
                  None \<Rightarrow> Inl NilPointerDereference
                | Some tn \<Rightarrow> Inr (''*'' @ obj_Name tn))
           | _ \<Rightarrow> Inr '''')
      | Named obj \<Rightarrow>
          (case obj of
             None \<Rightarrow> Inl NilPointerDereference
           | Some tn \<Rightarrow> Inr (obj_Name tn))
      | _ \<Rightarrow> Inr '''')"

text \<open>The parameter loop: \<open>j\<close> is the index of the head of the remaining parameters and
  \<open>len\<close> is \<open>params.Len()\<close>.\<close>

fun params_loop ::
  "string \<Rightarrow> bool \<Rightarrow> nat \<Rightarrow> Var list \<Rightarrow> nat \<Rightarrow> ImportStore \<Rightarrow> Param list \<times> ImportStore" where
  "params_loop currentPkgPath variadic len [] j importStore = ([], importStore)"
| "params_loop currentPkgPath variadic len (param # rest) j importStore =
     (let paramName = (if var_Name param = '''' then ''arg'' @ itoa j else var_Name param);
          (typeName, store') = getTypeName (var_Type param) currentPkgPath importStore;
          typeName' = (if int j = int len - 1 \<and> variadic then TrimPrefix typeName ''[]''
                       else typeName);
          (ps, store'') = params_loop currentPkgPath variadic len rest (j + 1) store'
      in (\<lparr>Param_Name = paramName, Param_Type = typeName'\<rparr> # ps, store''))"

fun results_loop :: "string \<Rightarrow> Var list \<Rightarrow> ImportStore \<Rightarrow> Result list \<times> ImportStore" where
  "results_loop currentPkgPath [] importStore = ([], importStore)"
| "results_loop currentPkgPath (result # rest) importStore =
     (let (typeName, store') = getTypeName (var_Type result) currentPkgPath importStore;
          (rs, store'') = results_loop currentPkgPath rest store'
      in (\<lparr>Result_Type = typeName\<rparr> # rs, store''))"

text \<open>The body of the method loop, for one exported method.\<close>

definition FindMethods_method :: "Package \<Rightarrow> Func \<Rightarrow> ImportStore \<Rightarrow> error + Method \<times> ImportStore" where
  "FindMethods_method pkg method importStore =
     (let sig = func_Sig method;
          doc = findFuncDoc pkg (func_Pos method)
      in case FindMethods_receiver (sig_Recv sig) of
           Inl e \<Rightarrow> Inl e
         | Inr receiverTypeStr \<Rightarrow>
             (let (params, store') =
                    params_loop (pkg_Path pkg) (sig_Variadic sig) (length (sig_Params sig))
                      (sig_Params sig) 0 importStore;
                  (results, store'') = results_loop (pkg_Path pkg) (sig_Results sig) store'
              in Inr (\<lparr>ReceiverType = receiverTypeStr, Name = func_Name method,
                        Params = params, Results = results,
                        IsVariadic = sig_Variadic sig, Doc = doc\<rparr>, store'')))"

fun methods_loop :: "Package \<Rightarrow> Func list \<Rightarrow> ImportStore \<Rightarrow> error + Method list \<times> ImportStore" where
  "methods_loop pkg [] importStore = Inr ([], importStore)"
| "methods_loop pkg (method # rest) importStore =
     (if \<not> func_Exported method then methods_loop pkg rest importStore
      else
        (case FindMethods_method pkg method importStore of
           Inl e \<Rightarrow> Inl e
         | Inr (m, store') \<Rightarrow>
             (case methods_loop pkg rest store' of
                Inl e \<Rightarrow> Inl e
              | Inr (methods, store'') \<Rightarrow> Inr (m # methods, store''))))"

definition FindMethods ::
  "Package \<Rightarrow> string \<Rightarrow> ImportStore \<Rightarrow> error + Method list \<times> ImportStore" where
  "FindMethods pkg structName importStore =
     (case pkg_Scope pkg structName of
        None \<Rightarrow> Inr ([], importStore)
      | Some obj \<Rightarrow>
          (case obj of
             OtherObject \<Rightarrow> Inr ([], importStore)
           | NamedObject methods \<Rightarrow> methods_loop pkg methods importStore))"

section \<open>Properties of the import store\<close>

lemma newPkgName_loop_first_unused:
  "\<exists>k\<ge>i. newPkgName_loop exprs pkgName i = pkgName @ itoa k
      \<and> fmlookup exprs (pkgName @ itoa k) = None
      \<and> (\<forall>j. i \<le> j \<and> j < k \<longrightarrow> fmlookup exprs (pkgName @ itoa j) \<noteq> None)"
proof (induction exprs pkgName i rule: newPkgName_loop.induct)
  case (1 exprs pkgName i)
  show ?case
  proof (cases "fmlookup exprs (pkgName @ itoa i) = None")
    case True
    then have "newPkgName_loop exprs pkgName i = pkgName @ itoa i"
      by (subst newPkgName_loop.simps) (simp add: Let_def)
    with True show ?thesis by (intro exI [of _ i]) auto
  next
    case False
    from "1.IH" [OF refl False] obtain k where k: "i + 1 \<le> k"
      and r: "newPkgName_loop exprs pkgName (i + 1) = pkgName @ itoa k"
      and f: "fmlookup exprs (pkgName @ itoa k) = None"
      and u: "\<forall>j. i + 1 \<le> j \<and> j < k \<longrightarrow> fmlookup exprs (pkgName @ itoa j) \<noteq> None"
      by blast
    have s: "newPkgName_loop exprs pkgName i = newPkgName_loop exprs pkgName (i + 1)"
      using False by (subst newPkgName_loop.simps) (auto simp: Let_def)
    have "\<forall>j. i \<le> j \<and> j < k \<longrightarrow> fmlookup exprs (pkgName @ itoa j) \<noteq> None"
    proof (intro allI impI)
      fix j assume j: "i \<le> j \<and> j < k"
      show "fmlookup exprs (pkgName @ itoa j) \<noteq> None"
      proof (cases "j = i")
        case True with False show ?thesis by simp
      next
        case False with j u show ?thesis by simp
      qed
    qed
    with k r f s show ?thesis by (intro exI [of _ k]) auto
  qed
qed

lemma newPkgName_loop_unused:
  "fmlookup exprs (newPkgName_loop exprs pkgName i) = None"
  using newPkgName_loop_first_unused [of i exprs pkgName] by auto

lemma newPkgName_loop_neq: "newPkgName_loop exprs pkgName i \<noteq> pkgName"
  using newPkgName_loop_first_unused [of i exprs pkgName] itoa_not_Nil by auto

text \<open>The declaration \<open>AddImport\<close> records for the path \<open>p\<close> bound to the alias
  \<open>a\<close>: the quoted path alone when the alias is the default one, followed by the alias
  otherwise.\<close>

abbreviation import_decl :: "string \<Rightarrow> string \<Rightarrow> string" where
  "import_decl p a \<equiv>
     (if a = getPackageName p then [dquote] @ p @ [dquote]
      else [dquote] @ p @ [dquote] @ '' '' @ a)"

lemma AddImport_present:
  "fmlookup (importPath2pkgName s) p = Some a \<Longrightarrow> AddImport s p = (a, s)"
  by (simp add: AddImport_def)

lemma AddImport_absent:
  assumes "fmlookup (importPath2pkgName s) p = None"
  shows "fmlookup (pkgName2importExpr s) (fst (AddImport s p)) = None"
    and "importPath2pkgName (snd (AddImport s p))
          = fmupd p (fst (AddImport s p)) (importPath2pkgName s)"
    and "pkgName2importExpr (snd (AddImport s p))
          = fmupd (fst (AddImport s p)) (import_decl p (fst (AddImport s p))) (pkgName2importExpr s)"
  using assms
  by (simp_all add: AddImport_def Let_def newPkgName_loop_unused newPkgName_loop_neq)

text \<open>
  The alias bound to a path, and the invariant of a store: distinct paths have
  distinct aliases, the keys of \<open>pkgName2importExpr\<close> are exactly the bound aliases, and
  each alias maps to the declaration of its path.
\<close>

definition alias_of :: "ImportStore \<Rightarrow> string \<Rightarrow> string" where
  "alias_of s p = the (fmlookup (importPath2pkgName s) p)"

definition store_inv :: "ImportStore \<Rightarrow> bool" where
  "store_inv s \<longleftrightarrow>
     inj_on (alias_of s) (fmdom' (importPath2pkgName s)) \<and>
     fmdom' (pkgName2importExpr s) = alias_of s ` fmdom' (importPath2pkgName s) \<and>
     (\<forall>p \<in> fmdom' (importPath2pkgName s).
        fmlookup (pkgName2importExpr s) (alias_of s p) = Some (import_decl p (alias_of s p)))"

lemma store_inv_New: "store_inv NewImportStore"
  by (simp add: store_inv_def NewImportStore_def)

lemma store_inv_AddImport:
  assumes inv: "store_inv s"
  shows "store_inv (snd (AddImport s p))"
proof (cases "fmlookup (importPath2pkgName s) p")
  case (Some a)
  then show ?thesis using inv by (simp add: AddImport_present)
next
  case None
  let ?a = "fst (AddImport s p)"
  let ?s = "snd (AddImport s p)"
  note ab = AddImport_absent [OF None]
  have fresh: "?a \<notin> fmdom' (pkgName2importExpr s)"
    using ab(1) by (simp add: fmdom'_notI)
  have pnew: "p \<notin> fmdom' (importPath2pkgName s)"
    using None by (simp add: fmdom'_notI)
  have al_p: "alias_of ?s p = ?a" by (simp add: alias_of_def ab(2))
  have al_old: "\<And>q. q \<in> fmdom' (importPath2pkgName s) \<Longrightarrow> alias_of ?s q = alias_of s q"
    using pnew by (auto simp: alias_of_def ab(2))
  have dom: "fmdom' (importPath2pkgName ?s) = insert p (fmdom' (importPath2pkgName s))"
    by (simp add: ab(2))
  from inv have i1: "inj_on (alias_of s) (fmdom' (importPath2pkgName s))"
    and i2: "fmdom' (pkgName2importExpr s) = alias_of s ` fmdom' (importPath2pkgName s)"
    and i3: "\<forall>p \<in> fmdom' (importPath2pkgName s).
        fmlookup (pkgName2importExpr s) (alias_of s p) = Some (import_decl p (alias_of s p))"
    by (simp_all add: store_inv_def)
  have img: "alias_of ?s ` fmdom' (importPath2pkgName s) = alias_of s ` fmdom' (importPath2pkgName s)"
    using al_old by (auto simp: image_iff)
  have g1: "inj_on (alias_of ?s) (fmdom' (importPath2pkgName ?s))"
  proof -
    have "inj_on (alias_of ?s) (fmdom' (importPath2pkgName s))"
      using i1 al_old by (auto simp: inj_on_def)
    moreover have "alias_of ?s p \<notin> alias_of ?s ` (fmdom' (importPath2pkgName s) - {p})"
      using fresh i2 img al_p by auto
    ultimately show ?thesis by (simp add: dom)
  qed
  have g2: "fmdom' (pkgName2importExpr ?s) = alias_of ?s ` fmdom' (importPath2pkgName ?s)"
    by (simp add: ab(3) dom al_p img i2)
  have g3: "\<forall>q \<in> fmdom' (importPath2pkgName ?s).
        fmlookup (pkgName2importExpr ?s) (alias_of ?s q) = Some (import_decl q (alias_of ?s q))"
  proof
    fix q assume q: "q \<in> fmdom' (importPath2pkgName ?s)"
    show "fmlookup (pkgName2importExpr ?s) (alias_of ?s q) = Some (import_decl q (alias_of ?s q))"
    proof (cases "q = p")
      case True
      then show ?thesis by (simp add: al_p ab(3))
    next
      case False
      with q dom have qd: "q \<in> fmdom' (importPath2pkgName s)" by simp
      then have "alias_of s q \<in> fmdom' (pkgName2importExpr s)" using i2 by simp
      with fresh have ne: "alias_of s q \<noteq> ?a" by auto
      from i3 qd have "fmlookup (pkgName2importExpr s) (alias_of s q) = Some (import_decl q (alias_of s q))"
        by blast
      with ne show ?thesis by (simp add: al_old [OF qd] ab(3))
    qed
  qed
  from g1 g2 g3 show ?thesis by (simp add: store_inv_def)
qed

lemma store_inv_AddImports: "store_inv s \<Longrightarrow> store_inv (AddImports s ps)"
  by (induction ps arbitrary: s) (simp_all add: store_inv_AddImport)

lemma dom_AddImport:
  "fmdom' (importPath2pkgName (snd (AddImport s p))) = insert p (fmdom' (importPath2pkgName s))"
proof (cases "fmlookup (importPath2pkgName s) p")
  case None
  then show ?thesis by (simp add: AddImport_absent(2))
next
  case (Some a)
  then have "p \<in> fmdom' (importPath2pkgName s)" by (rule fmdom'I)
  with Some show ?thesis by (auto simp: AddImport_present)
qed

lemma dom_AddImports:
  "fmdom' (importPath2pkgName (AddImports s ps)) = fmdom' (importPath2pkgName s) \<union> set ps"
  by (induction ps arbitrary: s) (simp_all add: dom_AddImport)

lemma AddImport_keeps:
  "fmlookup (importPath2pkgName s) q = Some a \<Longrightarrow>
   fmlookup (importPath2pkgName (snd (AddImport s p))) q = Some a"
proof (cases "fmlookup (importPath2pkgName s) p")
  case None
  assume "fmlookup (importPath2pkgName s) q = Some a"
  with None show ?thesis by (auto simp: AddImport_absent(2))
next
  case (Some b)
  assume "fmlookup (importPath2pkgName s) q = Some a"
  with Some show ?thesis by (simp add: AddImport_present)
qed

lemma AddImports_keeps:
  "fmlookup (importPath2pkgName s) q = Some a \<Longrightarrow>
   fmlookup (importPath2pkgName (AddImports s ps)) q = Some a"
  by (induction ps arbitrary: s) (simp_all add: AddImport_keeps)

lemma AddImport_binds:
  "fmlookup (importPath2pkgName (snd (AddImport s p))) p = Some (fst (AddImport s p))"
proof (cases "fmlookup (importPath2pkgName s) p")
  case None
  then show ?thesis by (simp add: AddImport_absent(2))
next
  case (Some a)
  then show ?thesis by (simp add: AddImport_present)
qed

lemmas store_eval = AddImport_def NewImportStore_def getPackageName_def Let_def
  newPkgName_loop.simps itoa.simps digit_char_def DumpImportExprs_def Values_def

text \<open>
  Claim C2.  In a store built from \<open>NewImportStore\<close> by any sequence of
  \<open>AddImport\<close> calls, no alias is bound to two distinct import paths.  On a name
  collision (the path is new and its default alias is already a key of
  \<open>pkgName2importExpr\<close>), the alias returned is the default alias followed by the
  decimal of the least \<open>k \<ge> 2\<close> whose candidate is unused; it is bound to the path,
  and the declaration is recorded in the form \<open>"path" alias\<close>.
\<close>

theorem AddImport_alias_injective:
  assumes "s = AddImports NewImportStore ps"
  shows "(\<forall>p q a. fmlookup (importPath2pkgName s) p = Some a
              \<and> fmlookup (importPath2pkgName s) q = Some a \<longrightarrow> p = q)
       \<and> (\<forall>p. fmlookup (importPath2pkgName s) p = None
              \<and> fmlookup (pkgName2importExpr s) (getPackageName p) \<noteq> None \<longrightarrow>
            (\<exists>k\<ge>2. fst (AddImport s p) = getPackageName p @ itoa k
               \<and> fmlookup (pkgName2importExpr s) (getPackageName p @ itoa k) = None
               \<and> (\<forall>j. 2 \<le> j \<and> j < k \<longrightarrow>
                     fmlookup (pkgName2importExpr s) (getPackageName p @ itoa j) \<noteq> None)
               \<and> fmlookup (importPath2pkgName (snd (AddImport s p))) p
                     = Some (getPackageName p @ itoa k)
               \<and> fmlookup (pkgName2importExpr (snd (AddImport s p))) (getPackageName p @ itoa k)
                     = Some ([dquote] @ p @ [dquote] @ '' '' @ getPackageName p @ itoa k)))"
proof (intro conjI allI impI)
  fix p q a
  assume h: "fmlookup (importPath2pkgName s) p = Some a
              \<and> fmlookup (importPath2pkgName s) q = Some a"
  have "store_inv s" unfolding assms by (rule store_inv_AddImports [OF store_inv_New])
  then have inj: "inj_on (alias_of s) (fmdom' (importPath2pkgName s))"
    by (simp add: store_inv_def)
  from h have "p \<in> fmdom' (importPath2pkgName s)" "q \<in> fmdom' (importPath2pkgName s)"
    by (auto intro: fmdom'I)
  moreover from h have "alias_of s p = alias_of s q" by (simp add: alias_of_def)
  ultimately show "p = q" using inj by (auto dest: inj_onD)
next
  fix p
  assume h: "fmlookup (importPath2pkgName s) p = None
              \<and> fmlookup (pkgName2importExpr s) (getPackageName p) \<noteq> None"
  from newPkgName_loop_first_unused [of 2 "pkgName2importExpr s" "getPackageName p"]
  obtain k where k: "2 \<le> k"
    and r: "newPkgName_loop (pkgName2importExpr s) (getPackageName p) 2 = getPackageName p @ itoa k"
    and f: "fmlookup (pkgName2importExpr s) (getPackageName p @ itoa k) = None"
    and u: "\<forall>j. 2 \<le> j \<and> j < k \<longrightarrow>
              fmlookup (pkgName2importExpr s) (getPackageName p @ itoa j) \<noteq> None"
    by blast
  from h r have a: "fst (AddImport s p) = getPackageName p @ itoa k"
    by (auto simp: AddImport_def Let_def)
  have ne: "getPackageName p @ itoa k \<noteq> getPackageName p" by (simp add: itoa_not_Nil)
  from h have b: "fmlookup (importPath2pkgName (snd (AddImport s p))) p
                     = Some (getPackageName p @ itoa k)"
    using AddImport_binds [of s p] a by simp
  from h have c: "fmlookup (pkgName2importExpr (snd (AddImport s p))) (getPackageName p @ itoa k)
                     = Some ([dquote] @ p @ [dquote] @ '' '' @ getPackageName p @ itoa k)"
    using AddImport_absent(3) [of s p] a ne by simp
  from k a f u b c
  show "\<exists>k\<ge>2. fst (AddImport s p) = getPackageName p @ itoa k
               \<and> fmlookup (pkgName2importExpr s) (getPackageName p @ itoa k) = None
               \<and> (\<forall>j. 2 \<le> j \<and> j < k \<longrightarrow>
                     fmlookup (pkgName2importExpr s) (getPackageName p @ itoa j) \<noteq> None)
               \<and> fmlookup (importPath2pkgName (snd (AddImport s p))) p
                     = Some (getPackageName p @ itoa k)
               \<and> fmlookup (pkgName2importExpr (snd (AddImport s p))) (getPackageName p @ itoa k)
                     = Some ([dquote] @ p @ [dquote] @ '' '' @ getPackageName p @ itoa k)"
    by blast
qed

theorem AddImport_alias_injective_witness:
  "fmlookup (importPath2pkgName (AddImports NewImportStore [''x/b'', ''y/b''])) ''z/b'' = None
   \<and> fmlookup (pkgName2importExpr (AddImports NewImportStore [''x/b'', ''y/b'']))
        (getPackageName ''z/b'') \<noteq> None
   \<and> fmlookup (importPath2pkgName (AddImports NewImportStore [''x/b'', ''y/b''])) ''x/b'' = Some ''b''
   \<and> fmlookup (importPath2pkgName (AddImports NewImportStore [''x/b'', ''y/b''])) ''y/b'' = Some ''b2''
   \<and> fst (AddImport (AddImports NewImportStore [''x/b'', ''y/b'']) ''z/b'') = ''b3''
   \<and> (\<exists>k\<ge>2. fst (AddImport (AddImports NewImportStore [''x/b'', ''y/b'']) ''z/b'')
               = getPackageName ''z/b'' @ itoa k)"
proof -
  let ?s = "AddImports NewImportStore [''x/b'', ''y/b'']"
  have h: "fmlookup (importPath2pkgName ?s) ''z/b'' = None
           \<and> fmlookup (pkgName2importExpr ?s) (getPackageName ''z/b'') \<noteq> None"
    by (simp add: store_eval)
  from AddImport_alias_injective [OF refl, of "[''x/b'', ''y/b'']"] h
  have "\<exists>k\<ge>2. fst (AddImport ?s ''z/b'') = getPackageName ''z/b'' @ itoa k"
    by blast
  moreover have "fmlookup (importPath2pkgName ?s) ''x/b'' = Some ''b''"
    "fmlookup (importPath2pkgName ?s) ''y/b'' = Some ''b2''"
    "fst (AddImport ?s ''z/b'') = ''b3''"
    by (simp_all add: store_eval)
  ultimately show ?thesis using h by blast
qed

text \<open>
  Claim C3.  \<open>AddImport\<close> is idempotent: in every store, a second call with the same
  path, after any interleaved \<open>AddImport\<close> calls, returns the alias of the first call.
\<close>

theorem AddImport_idempotent:
  "fst (AddImport (AddImports (snd (AddImport s p)) qs) p) = fst (AddImport s p)"
proof -
  have "fmlookup (importPath2pkgName (snd (AddImport s p))) p = Some (fst (AddImport s p))"
    by (rule AddImport_binds)
  then have "fmlookup (importPath2pkgName (AddImports (snd (AddImport s p)) qs)) p
      = Some (fst (AddImport s p))"
    by (rule AddImports_keeps)
  then show ?thesis by (simp add: AddImport_present)
qed

lemma Values_exists: "\<exists>vs. Values m vs"
  unfolding Values_def using ex_mset [of "image_mset (\<lambda>k. the (fmlookup m k)) (mset_set (fmdom' m))"]
  by blast

text \<open>
  Claim C6.  After any sequence of \<open>AddImport\<close> calls on a fresh store,
  \<open>DumpImportExprs\<close> returns, and whatever list it returns holds exactly one import
  declaration for each distinct path of the sequence: the declaration recorded for the
  path under its alias, and as many entries as there are distinct paths.
\<close>

theorem DumpImportExprs_one_per_path:
  assumes "s = AddImports NewImportStore ps"
  shows "(\<exists>vs. DumpImportExprs s vs)
       \<and> (\<forall>vs. DumpImportExprs s vs \<longrightarrow>
             mset vs = image_mset (\<lambda>p. import_decl p (alias_of s p)) (mset_set (set ps))
           \<and> length vs = card (set ps))"
proof (intro conjI allI impI)
  show "\<exists>vs. DumpImportExprs s vs" by (simp add: DumpImportExprs_def Values_exists)
next
  fix vs assume d: "DumpImportExprs s vs"
  have inv: "store_inv s" unfolding assms by (rule store_inv_AddImports [OF store_inv_New])
  have dom: "fmdom' (importPath2pkgName s) = set ps"
    unfolding assms by (simp add: dom_AddImports NewImportStore_def)
  from inv dom have i1: "inj_on (alias_of s) (set ps)"
    and i2: "fmdom' (pkgName2importExpr s) = alias_of s ` set ps"
    and i3: "\<forall>p \<in> set ps.
        fmlookup (pkgName2importExpr s) (alias_of s p) = Some (import_decl p (alias_of s p))"
    by (simp_all add: store_inv_def)
  from d have "mset vs = image_mset (\<lambda>k. the (fmlookup (pkgName2importExpr s) k))
      (mset_set (alias_of s ` set ps))"
    by (simp add: DumpImportExprs_def Values_def i2)
  also have "mset_set (alias_of s ` set ps) = image_mset (alias_of s) (mset_set (set ps))"
    using i1 by (simp add: image_mset_mset_set)
  also have "image_mset (\<lambda>k. the (fmlookup (pkgName2importExpr s) k))
      (image_mset (alias_of s) (mset_set (set ps)))
      = image_mset (\<lambda>p. the (fmlookup (pkgName2importExpr s) (alias_of s p))) (mset_set (set ps))"
    by (simp add: multiset.map_comp comp_def)
  also have "\<dots> = image_mset (\<lambda>p. import_decl p (alias_of s p)) (mset_set (set ps))"
    by (rule image_mset_cong) (use i3 in simp)
  finally show m: "mset vs = image_mset (\<lambda>p. import_decl p (alias_of s p)) (mset_set (set ps))" .
  have "length vs = size (mset vs)" by simp
  also have "\<dots> = card (set ps)" by (simp only: m size_image_mset size_mset_set)
  finally show "length vs = card (set ps)" .
qed

theorem DumpImportExprs_one_per_path_witness:
  "DumpImportExprs (AddImports NewImportStore [''x/b'', ''y/b'', ''x/b''])
      [[dquote] @ ''y/b'' @ [dquote] @ '' b2'', [dquote] @ ''x/b'' @ [dquote]]
   \<and> length [[dquote] @ ''y/b'' @ [dquote] @ '' b2'', [dquote] @ ''x/b'' @ [dquote]]
       = card (set [''x/b'', ''y/b'', ''x/b''])
   \<and> card (set [''x/b'', ''y/b'', ''x/b'']) = 2"
proof -
  let ?s = "AddImports NewImportStore [''x/b'', ''y/b'', ''x/b'']"
  let ?vs = "[[dquote] @ ''y/b'' @ [dquote] @ '' b2'', [dquote] @ ''x/b'' @ [dquote]]"
  have d: "DumpImportExprs ?s ?vs" by (simp add: store_eval)
  with DumpImportExprs_one_per_path [OF refl, of "[''x/b'', ''y/b'', ''x/b'']"]
  have "length ?vs = card (set [''x/b'', ''y/b'', ''x/b''])" by blast
  moreover have "card (set [''x/b'', ''y/b'', ''x/b'']) = 2" by (simp add: card_insert_if)
  ultimately show ?thesis using d by blast
qed

text \<open>
  Claim C7 as stated (two dumps of the same store return the declarations in the same
  order) fails: for the store holding the imports \<open>a\<close> and \<open>b\<close>, both orders are
  possible returns of \<open>DumpImportExprs\<close>.
\<close>

theorem DumpImportExprs_order_counterexample:
  "\<not> (\<forall>vs ws. DumpImportExprs (AddImports NewImportStore [''a'', ''b'']) vs
          \<and> DumpImportExprs (AddImports NewImportStore [''a'', ''b'']) ws \<longrightarrow> vs = ws)"
proof
  let ?s = "AddImports NewImportStore [''a'', ''b'']"
  let ?a = "[dquote] @ ''a'' @ [dquote]" and ?b = "[dquote] @ ''b'' @ [dquote]"
  assume "\<forall>vs ws. DumpImportExprs ?s vs \<and> DumpImportExprs ?s ws \<longrightarrow> vs = ws"
  moreover have "DumpImportExprs ?s [?a, ?b]" by (simp add: store_eval)
  moreover have "DumpImportExprs ?s [?b, ?a]" by (simp add: store_eval)
  ultimately have "[?a, ?b] = [?b, ?a]" by blast
  then show False by simp
qed

text \<open>
  Claim C7, amended.  Two invocations of \<open>DumpImportExprs\<close> on stores built by the same
  sequence of \<open>AddImport\<close> calls return the same declarations with the same
  multiplicities; their order is not determined.
\<close>

theorem DumpImportExprs_same_multiset:
  assumes "DumpImportExprs (AddImports NewImportStore ps) vs"
    and "DumpImportExprs (AddImports NewImportStore ps) ws"
  shows "mset vs = mset ws"
  using assms by (simp add: DumpImportExprs_def Values_def)

theorem DumpImportExprs_same_multiset_witness:
  "DumpImportExprs (AddImports NewImportStore [''a'', ''b''])
      [[dquote] @ ''a'' @ [dquote], [dquote] @ ''b'' @ [dquote]]
   \<and> DumpImportExprs (AddImports NewImportStore [''a'', ''b''])
      [[dquote] @ ''b'' @ [dquote], [dquote] @ ''a'' @ [dquote]]
   \<and> mset [[dquote] @ ''a'' @ [dquote], [dquote] @ ''b'' @ [dquote]]
      = mset [[dquote] @ ''b'' @ [dquote], [dquote] @ ''a'' @ [dquote]]"
proof -
  let ?s = "AddImports NewImportStore [''a'', ''b'']"
  let ?a = "[dquote] @ ''a'' @ [dquote]" and ?b = "[dquote] @ ''b'' @ [dquote]"
  have 1: "DumpImportExprs ?s [?a, ?b]" by (simp add: store_eval)
  have 2: "DumpImportExprs ?s [?b, ?a]" by (simp add: store_eval)
  from DumpImportExprs_same_multiset [OF 1 2] 1 2 show ?thesis by blast
qed

text \<open>
  Claim C9.  \<open>AddImport\<close> on a path that is already in the store returns the alias
  bound to it and leaves the store unchanged: both maps are unmodified, and a
  subsequent \<open>DumpImportExprs\<close> returns the same multiset of declarations as before.
\<close>

theorem AddImport_present_unchanged:
  assumes "fmlookup (importPath2pkgName s) p = Some a"
  shows "fst (AddImport s p) = a
       \<and> importPath2pkgName (snd (AddImport s p)) = importPath2pkgName s
       \<and> pkgName2importExpr (snd (AddImport s p)) = pkgName2importExpr s
       \<and> snd (AddImport s p) = s
       \<and> (\<forall>vs ws. DumpImportExprs s vs \<and> DumpImportExprs (snd (AddImport s p)) ws
             \<longrightarrow> mset vs = mset ws)"
  using assms by (simp add: AddImport_present DumpImportExprs_def Values_def)

theorem AddImport_present_unchanged_witness:
  "fmlookup (importPath2pkgName (AddImports NewImportStore [''x/b'', ''y/b''])) ''y/b'' = Some ''b2''
   \<and> fst (AddImport (AddImports NewImportStore [''x/b'', ''y/b'']) ''y/b'') = ''b2''
   \<and> snd (AddImport (AddImports NewImportStore [''x/b'', ''y/b'']) ''y/b'')
       = AddImports NewImportStore [''x/b'', ''y/b'']"
proof -
  let ?s = "AddImports NewImportStore [''x/b'', ''y/b'']"
  have h: "fmlookup (importPath2pkgName ?s) ''y/b'' = Some ''b2''" by (simp add: store_eval)
  from AddImport_present_unchanged [OF h] h show ?thesis by blast
qed

section \<open>Properties of the canonical type names\<close>

text \<open>
  Claim C1.  A named type with a defining package is rendered as its bare name when
  the path of that package equals the current package path, and the store is left
  alone; when the path differs it is rendered as alias, dot, name, where the alias is
  what \<open>AddImport\<close> returns for the defining package path on the current store (and the
  store is the one \<open>AddImport\<close> leaves).  Predeclared named types such as \<open>error\<close>
  have no package and are outside the claim.
\<close>

theorem getTypeName_named:
  assumes "obj_Pkg tn = Some packagePath"
  shows "(packagePath = currentPkgPath \<longrightarrow>
            getTypeName (Named (Some tn)) currentPkgPath store = (obj_Name tn, store))
       \<and> (packagePath \<noteq> currentPkgPath \<longrightarrow>
            getTypeName (Named (Some tn)) currentPkgPath store
              = (fst (AddImport store packagePath) @ ''.'' @ obj_Name tn,
                 snd (AddImport store packagePath)))"
  using assms by (simp add: case_prod_beta)

theorem getTypeName_named_witness:
  "obj_Pkg \<lparr>obj_Name = ''MyDuration'', obj_Pkg = Some ''example.com/mypkg''\<rparr>
      = Some ''example.com/mypkg''
   \<and> fst (getTypeName (Named (Some \<lparr>obj_Name = ''MyDuration'', obj_Pkg = Some ''example.com/mypkg''\<rparr>))
          ''example.com/mypkg'' NewImportStore) = ''MyDuration''
   \<and> obj_Pkg \<lparr>obj_Name = ''Buffer'', obj_Pkg = Some ''bytes''\<rparr> = Some ''bytes''
   \<and> ''bytes'' \<noteq> ''example.com/mypkg''
   \<and> fst (getTypeName (Named (Some \<lparr>obj_Name = ''Buffer'', obj_Pkg = Some ''bytes''\<rparr>))
          ''example.com/mypkg'' (AddImports NewImportStore [''x/bytes''])) = ''bytes2.Buffer''"
proof -
  let ?l = "\<lparr>obj_Name = ''MyDuration'', obj_Pkg = Some ''example.com/mypkg''\<rparr>"
  let ?f = "\<lparr>obj_Name = ''Buffer'', obj_Pkg = Some ''bytes''\<rparr>"
  let ?s = "AddImports NewImportStore [''x/bytes'']"
  have h1: "obj_Pkg ?l = Some ''example.com/mypkg''" by simp
  have h2: "obj_Pkg ?f = Some ''bytes''" by simp
  have ne: "''bytes'' \<noteq> ''example.com/mypkg''" by simp
  from getTypeName_named [OF h1, of "''example.com/mypkg''" NewImportStore]
  have a: "fst (getTypeName (Named (Some ?l)) ''example.com/mypkg'' NewImportStore) = ''MyDuration''"
    by simp
  from getTypeName_named [OF h2, of "''example.com/mypkg''" ?s] ne
  have "fst (getTypeName (Named (Some ?f)) ''example.com/mypkg'' ?s)
      = fst (AddImport ?s ''bytes'') @ ''.'' @ ''Buffer''"
    by simp
  moreover have "fst (AddImport ?s ''bytes'') = ''bytes2''" by (simp add: store_eval)
  ultimately have b: "fst (getTypeName (Named (Some ?f)) ''example.com/mypkg'' ?s) = ''bytes2.Buffer''"
    by simp
  from h1 a h2 ne b show ?thesis by blast
qed

section \<open>Properties of the identifier sanitizer\<close>

lemma ReplaceAll_absent:
  "c \<in> set old \<Longrightarrow> c \<notin> set s \<Longrightarrow> ReplaceAll s old new = s"
proof (induction s old new rule: ReplaceAll.induct)
  case (1 old new)
  show ?case by simp
next
  case (2 x xs old new)
  have "\<not> prefix old (x # xs)"
  proof
    assume "prefix old (x # xs)"
    then have "set old \<subseteq> set (x # xs)" by (rule set_mono_prefix)
    with "2.prems" show False by blast
  qed
  moreover from "2.prems" have "c \<notin> set xs" by simp
  ultimately show ?case using "2.IH"(2) "2.prems"(1) by simp
qed

lemma arrayRegex_match_absent: "CHR ''['' \<notin> set s \<Longrightarrow> arrayRegex_match s = None"
  by (cases s) (auto simp: arrayRegex_match_def)

lemma arrayRegex_ReplaceAll_absent: "CHR ''['' \<notin> set s \<Longrightarrow> arrayRegex_ReplaceAll s = s"
  by (induction s) (simp_all add: arrayRegex_match_absent)

lemma mapRegex_match_absent: "CHR ''['' \<notin> set s \<Longrightarrow> mapRegex_match s = None"
proof -
  assume a: "CHR ''['' \<notin> set s"
  have "\<not> prefix ''map['' s"
  proof
    assume "prefix ''map['' s"
    then have "set ''map['' \<subseteq> set s" by (rule set_mono_prefix)
    with a show False by simp
  qed
  then show ?thesis by (simp add: mapRegex_match_def)
qed

lemma mapRegex_ReplaceAll_absent: "CHR ''['' \<notin> set s \<Longrightarrow> mapRegex_ReplaceAll s = s"
  by (induction s) (simp_all add: mapRegex_match_absent)

lemma HasPrefix_absent: "c \<in> set p \<Longrightarrow> c \<notin> set s \<Longrightarrow> \<not> HasPrefix s p"
  unfolding HasPrefix_def using set_mono_prefix by fastforce

lemma IdentifiableTypeName_ident:
  assumes "\<forall>c \<in> set s. is_ident_char c"
  shows "IdentifiableTypeName s = s"
proof -
  have no: "\<And>c. \<not> is_ident_char c \<Longrightarrow> c \<notin> set s" using assms by blast
  have n1: "CHR ''*'' \<notin> set s" by (rule no) (simp add: is_ident_char_def)
  have n2: "CHR ''['' \<notin> set s" by (rule no) (simp add: is_ident_char_def)
  have n3: "CHR ''<'' \<notin> set s" by (rule no) (simp add: is_ident_char_def)
  have n4: "CHR '' '' \<notin> set s" by (rule no) (simp add: is_ident_char_def)
  have n5: "CHR ''('' \<notin> set s" by (rule no) (simp add: is_ident_char_def)
  have n6: "CHR ''{'' \<notin> set s" by (rule no) (simp add: is_ident_char_def)
  have n7: "CHR ''.'' \<notin> set s" by (rule no) (simp add: is_ident_char_def)
  have r1: "ReplaceAll s ''*'' ''pointerOf'' = s" by (rule ReplaceAll_absent [OF _ n1]) simp
  have r2: "ReplaceAll s ''[]'' ''sliceOf'' = s" by (rule ReplaceAll_absent [OF _ n2]) simp
  have r3: "ReplaceAll s ''chan<-'' ''sendChanOf'' = s" by (rule ReplaceAll_absent [OF _ n3]) simp
  have r4: "ReplaceAll s ''<-chan'' ''recvChanOf'' = s" by (rule ReplaceAll_absent [OF _ n3]) simp
  have r5: "ReplaceAll s ''chan '' ''chanOf'' = s" by (rule ReplaceAll_absent [OF _ n4]) simp
  have r6: "\<not> HasPrefix s ''func(''" by (rule HasPrefix_absent [OF _ n5]) simp
  have r7: "ReplaceAll s ''interface{}'' ''any'' = s" by (rule ReplaceAll_absent [OF _ n6]) simp
  have r8: "ReplaceAll s '' '' ''_'' = s" by (rule ReplaceAll_absent [OF _ n4]) simp
  have r9: "ReplaceAll s ''.'' ''_'' = s" by (rule ReplaceAll_absent [OF _ n7]) simp
  have r10: "filter is_ident_char s = s" using assms by (simp add: filter_id_conv)
  show ?thesis
    by (simp only: IdentifiableTypeName_def Let_def r1 r2 r3 r4 r5 r6 r7 r8 r9 r10 if_False
        arrayRegex_ReplaceAll_absent [OF n2] mapRegex_ReplaceAll_absent [OF n2]
        cleanRegex_ReplaceAll_def)
qed

lemma IdentifiableTypeName_chars: "\<forall>c \<in> set (IdentifiableTypeName s). is_ident_char c"
  by (simp add: IdentifiableTypeName_def Let_def cleanRegex_ReplaceAll_def)

text \<open>
  Claim C4.  The sanitizer is idempotent on every string: its output holds only
  letters, digits and underscores, and no step changes such a string.
\<close>

theorem IdentifiableTypeName_idempotent:
  "IdentifiableTypeName (IdentifiableTypeName s) = IdentifiableTypeName s"
  by (rule IdentifiableTypeName_ident [OF IdentifiableTypeName_chars])

lemmas sanitize_eval = IdentifiableTypeName_def Let_def HasPrefix_def arrayRegex_match_def
  mapRegex_match_def cleanRegex_ReplaceAll_def is_ident_char_def is_digit_def

text \<open>
  Claim C10.  The sanitizer is not injective: the canonical names \<open>a.b\<close> (the type
  \<open>b\<close> of a foreign package \<open>a\<close>) and \<open>a_b\<close> (a type of the current package) are
  distinct and both sanitize to \<open>a_b\<close>.
\<close>

theorem IdentifiableTypeName_not_injective:
  "fst (getTypeName (Named (Some \<lparr>obj_Name = ''b'', obj_Pkg = Some ''a''\<rparr>)) ''m'' NewImportStore) = ''a.b''
   \<and> fst (getTypeName (Named (Some \<lparr>obj_Name = ''a_b'', obj_Pkg = Some ''m''\<rparr>)) ''m'' NewImportStore) = ''a_b''
   \<and> ''a.b'' \<noteq> ''a_b''
   \<and> IdentifiableTypeName ''a.b'' = ''a_b''
   \<and> IdentifiableTypeName ''a_b'' = ''a_b''
   \<and> \<not> inj IdentifiableTypeName"
proof -
  have 1: "fst (getTypeName (Named (Some \<lparr>obj_Name = ''b'', obj_Pkg = Some ''a''\<rparr>)) ''m'' NewImportStore) = ''a.b''"
    by (simp add: store_eval)
  have 2: "fst (getTypeName (Named (Some \<lparr>obj_Name = ''a_b'', obj_Pkg = Some ''m''\<rparr>)) ''m'' NewImportStore) = ''a_b''"
    by simp
  have 3: "''a.b'' \<noteq> ''a_b''" by simp
  have 4: "IdentifiableTypeName ''a.b'' = ''a_b''" by (simp add: sanitize_eval)
  have 5: "IdentifiableTypeName ''a_b'' = ''a_b''" by (simp add: sanitize_eval)
  have 6: "\<not> inj IdentifiableTypeName"
  proof
    assume i: "inj IdentifiableTypeName"
    from 4 5 have "IdentifiableTypeName ''a.b'' = IdentifiableTypeName ''a_b''" by simp
    with i have "''a.b'' = ''a_b''" by (rule injD)
    with 3 show False by blast
  qed
  from 1 2 3 4 5 6 show ?thesis by blast
qed

section \<open>Properties of the declaration scanner\<close>

text \<open>The nodes below a node in the order \<open>ast.Inspect\<close> reaches them when nothing is
  pruned, and the nodes of a package, file after file.\<close>

fun preorder :: "Node \<Rightarrow> Node list"
  and preorder_list :: "Node list \<Rightarrow> Node list" where
  "preorder (GenDeclNode d ns) = GenDeclNode d ns # preorder_list ns"
| "preorder (FuncDeclNode d ns) = FuncDeclNode d ns # preorder_list ns"
| "preorder (OtherNode ns) = OtherNode ns # preorder_list ns"
| "preorder_list [] = []"
| "preorder_list (n # ns) = preorder n @ preorder_list ns"

definition all_nodes :: "Package \<Rightarrow> Node list" where
  "all_nodes pkg = concat (map (\<lambda>file. preorder (file_node file)) (pkg_Syntax pkg))"

text \<open>
  What the code accepts at one node: a type declaration whose doc comment group has a
  comment that, trimmed, equals the marker, and among whose specs there is a type spec
  with a struct type expression; the first such spec is the result.
\<close>

definition is_struct_spec :: "Spec \<Rightarrow> bool" where
  "is_struct_spec sp = (case sp of TypeSpecNode t \<Rightarrow> ts_Type t = StructType | OtherSpec \<Rightarrow> False)"

definition the_TypeSpec :: "Spec \<Rightarrow> TypeSpec option" where
  "the_TypeSpec sp = (case sp of TypeSpecNode t \<Rightarrow> Some t | OtherSpec \<Rightarrow> None)"

definition marked_struct :: "string \<Rightarrow> Node \<Rightarrow> TypeSpec option" where
  "marked_struct marker n =
     (case n of
        GenDeclNode d ns \<Rightarrow>
          (case gd_Doc d of
             None \<Rightarrow> None
           | Some comments \<Rightarrow>
               if gd_Tok d = token_TYPE \<and> (\<exists>c \<in> set comments. TrimSpace c = marker)
               then Option.bind (find is_struct_spec (gd_Specs d)) the_TypeSpec
               else None)
      | FuncDeclNode d ns \<Rightarrow> None
      | OtherNode ns \<Rightarrow> None)"

definition first_marked_struct :: "string \<Rightarrow> Node list \<Rightarrow> TypeSpec option" where
  "first_marked_struct marker ns =
     (case List.map_filter (marked_struct marker) ns of [] \<Rightarrow> None | t # ts \<Rightarrow> Some t)"

text \<open>
  The scan as the specification words it: only the top-level declarations of the
  files are candidates, and a candidate is a type declaration whose immediately
  preceding comment (the last comment of its doc comment group), trimmed, equals the
  marker and that declares a struct that is not an alias.
\<close>

definition is_plain_struct_spec :: "Spec \<Rightarrow> bool" where
  "is_plain_struct_spec sp =
     (case sp of TypeSpecNode t \<Rightarrow> ts_Type t = StructType \<and> \<not> ts_Assign t | OtherSpec \<Rightarrow> False)"

definition spec_marked_struct :: "string \<Rightarrow> Node \<Rightarrow> TypeSpec option" where
  "spec_marked_struct marker n =
     (case n of
        GenDeclNode d ns \<Rightarrow>
          (case gd_Doc d of
             None \<Rightarrow> None
           | Some comments \<Rightarrow>
               if gd_Tok d = token_TYPE \<and> comments \<noteq> [] \<and> TrimSpace (last comments) = marker
               then Option.bind (find is_plain_struct_spec (gd_Specs d)) the_TypeSpec
               else None)
      | FuncDeclNode d ns \<Rightarrow> None
      | OtherNode ns \<Rightarrow> None)"

definition spec_FindStruct :: "Package \<Rightarrow> string \<Rightarrow> TypeSpec option" where
  "spec_FindStruct pkg marker =
     (case List.map_filter (spec_marked_struct marker) (concat (map file_Nodes (pkg_Syntax pkg))) of
        [] \<Rightarrow> None
      | t # ts \<Rightarrow> Some t)"

text \<open>Three packages of one file each: a marked alias of a struct type; a marked
  struct declared in a function body before a marked top-level struct; and a struct
  whose doc comment group has the marker followed by a second comment.\<close>

definition alias_pkg :: Package where
  "alias_pkg =
     \<lparr>pkg_Path = ''example.com/mypkg'', pkg_Scope = (\<lambda>n. None),
      pkg_Syntax =
        [\<lparr>file_Pos = 1, file_End = 100, file_Nodes =
            [GenDeclNode
               \<lparr>gd_Tok = token_TYPE, gd_Doc = Some [''// raytasks''],
                gd_Specs = [TypeSpecNode \<lparr>ts_Name = ''T'', ts_Assign = True, ts_Type = StructType\<rparr>]\<rparr>
               []]\<rparr>]\<rparr>"

definition doc_pkg :: Package where
  "doc_pkg =
     \<lparr>pkg_Path = ''example.com/mypkg'', pkg_Scope = (\<lambda>n. None),
      pkg_Syntax =
        [\<lparr>file_Pos = 1, file_End = 100, file_Nodes =
            [GenDeclNode
               \<lparr>gd_Tok = token_TYPE,
                gd_Doc = Some [''// raytasks'', ''// Tasks holds the remote tasks.''],
                gd_Specs = [TypeSpecNode
                  \<lparr>ts_Name = ''Tasks'', ts_Assign = False, ts_Type = StructType\<rparr>]\<rparr>
               []]\<rparr>]\<rparr>"

definition nested_pkg :: Package where
  "nested_pkg =
     \<lparr>pkg_Path = ''example.com/mypkg'', pkg_Scope = (\<lambda>n. None),
      pkg_Syntax =
        [\<lparr>file_Pos = 1, file_End = 200, file_Nodes =
            [FuncDeclNode \<lparr>fd_NamePos = 20, fd_Doc = None\<rparr>
               [OtherNode
                  [GenDeclNode
                     \<lparr>gd_Tok = token_TYPE, gd_Doc = Some [''// raytasks''],
                      gd_Specs = [TypeSpecNode
                        \<lparr>ts_Name = ''Inner'', ts_Assign = False, ts_Type = StructType\<rparr>]\<rparr>
                     []]],
             GenDeclNode
               \<lparr>gd_Tok = token_TYPE, gd_Doc = Some [''// raytasks''],
                gd_Specs = [TypeSpecNode
                  \<lparr>ts_Name = ''Outer'', ts_Assign = False, ts_Type = StructType\<rparr>]\<rparr>
               []]\<rparr>]\<rparr>"

lemma specs_loop_find: "specs_loop specs = Option.bind (find is_struct_spec specs) the_TypeSpec"
  by (induction specs rule: specs_loop.induct) (simp_all add: is_struct_spec_def the_TypeSpec_def)

lemma comments_loop_marked:
  "comments_loop marker comments specs =
     (if \<exists>c \<in> set comments. TrimSpace c = marker then specs_loop specs else None)"
  by (induction comments) (auto split: option.splits)

lemma FindStruct_visit_None:
  "FindStruct_visit marker None n = (marked_struct marker n, marked_struct marker n = None)"
  by (cases n)
     (auto simp: marked_struct_def comments_loop_marked specs_loop_find split: option.splits)

text \<open>The target once set is kept; before that, the scan is a search in preorder.\<close>

definition scan_from :: "string \<Rightarrow> TypeSpec option \<Rightarrow> Node list \<Rightarrow> TypeSpec option" where
  "scan_from marker target ns =
     (case target of Some t \<Rightarrow> Some t | None \<Rightarrow> first_marked_struct marker ns)"

lemma scan_from_Nil: "scan_from marker target [] = target"
  by (simp add: scan_from_def first_marked_struct_def List.map_filter_simps split: option.splits)

lemma scan_from_append:
  "scan_from marker target (xs @ ys) = scan_from marker (scan_from marker target xs) ys"
  by (cases target)
     (auto simp: scan_from_def first_marked_struct_def List.map_filter_def split: list.splits)

lemma scan_from_Cons_None:
  "scan_from marker None (n # ns) =
     (case marked_struct marker n of Some t \<Rightarrow> Some t | None \<Rightarrow> scan_from marker None ns)"
  by (simp add: scan_from_def first_marked_struct_def List.map_filter_simps split: option.splits)

lemma scan_from_Some: "scan_from marker (Some t) ns = Some t"
  by (simp add: scan_from_def)

lemma Inspect_scan:
  "Inspect (FindStruct_visit marker) n target = scan_from marker target (preorder n)"
  "InspectList (FindStruct_visit marker) ns target = scan_from marker target (preorder_list ns)"
proof (induction n and ns arbitrary: target and target rule: preorder_preorder_list.induct)
  case (1 d ns)
  show ?case
  proof (cases target)
    case (Some t) then show ?thesis by (simp add: scan_from_Some)
  next
    case None
    show ?thesis
      by (cases "marked_struct marker (GenDeclNode d ns)")
         (simp_all add: None FindStruct_visit_None scan_from_Cons_None scan_from_Some "1.IH"
            del: FindStruct_visit.simps)
  qed
next
  case (2 d ns)
  show ?case
  proof (cases target)
    case (Some t) then show ?thesis by (simp add: scan_from_Some)
  next
    case None
    show ?thesis
      by (cases "marked_struct marker (FuncDeclNode d ns)")
         (simp_all add: None FindStruct_visit_None scan_from_Cons_None scan_from_Some "2.IH"
            del: FindStruct_visit.simps)
  qed
next
  case (3 ns)
  show ?case
  proof (cases target)
    case (Some t) then show ?thesis by (simp add: scan_from_Some)
  next
    case None
    show ?thesis
      by (cases "marked_struct marker (OtherNode ns)")
         (simp_all add: None FindStruct_visit_None scan_from_Cons_None scan_from_Some "3.IH"
            del: FindStruct_visit.simps)
  qed
next
  case 4
  show ?case by (simp add: scan_from_Nil)
next
  case (5 n ns)
  show ?case by (simp add: scan_from_append "5.IH")
qed

lemma fold_Inspect_scan:
  "fold (\<lambda>file targetStruct. Inspect (FindStruct_visit marker) (file_node file) targetStruct)
     files target
   = scan_from marker target (concat (map (\<lambda>file. preorder (file_node file)) files))"
  by (induction files arbitrary: target) (simp_all add: scan_from_Nil scan_from_append Inspect_scan)

lemma FindStruct_scan: "FindStruct pkg marker = first_marked_struct marker (all_nodes pkg)"
  by (simp add: FindStruct_def fold_Inspect_scan all_nodes_def scan_from_def)

lemma first_marked_struct_None:
  "first_marked_struct marker ns = None \<longleftrightarrow> (\<forall>n \<in> set ns. marked_struct marker n = None)"
  by (induction ns)
     (auto simp: first_marked_struct_def List.map_filter_simps split: option.splits list.splits)

lemma specs_loop_Some: "specs_loop specs = Some t \<Longrightarrow> ts_Type t = StructType"
  by (induction specs rule: specs_loop.induct) (auto split: if_splits)

lemma marked_struct_Some:
  "marked_struct marker n = Some t \<Longrightarrow> ts_Type t = StructType"
  by (cases n)
     (auto simp: marked_struct_def specs_loop_find [symmetric] dest: specs_loop_Some
        split: option.splits if_splits)

lemma first_marked_struct_Some:
  "first_marked_struct marker ns = Some t \<Longrightarrow> \<exists>n \<in> set ns. marked_struct marker n = Some t"
  by (induction ns)
     (auto simp: first_marked_struct_def List.map_filter_simps split: option.splits list.splits)

text \<open>
  Claim C8, amended.  \<open>FindStruct\<close> returns the first struct type spec of the first type
  declaration, in the order \<open>ast.Inspect\<close> visits the nodes of the files (declarations
  nested in function bodies included), whose doc comment group has a comment that,
  trimmed, equals the marker and which has a type spec with a struct type expression
  (an alias of a struct type included, an interface not).  It returns at most one
  result, a spec with a struct type, and returns nothing exactly when no visited
  declaration is of that kind.
\<close>

theorem FindStruct_first_marked:
  "FindStruct pkg marker = first_marked_struct marker (all_nodes pkg)
   \<and> (FindStruct pkg marker = None \<longleftrightarrow> (\<forall>n \<in> set (all_nodes pkg). marked_struct marker n = None))
   \<and> (\<forall>t. FindStruct pkg marker = Some t \<longrightarrow> ts_Type t = StructType)"
proof (intro conjI allI impI)
  show "FindStruct pkg marker = first_marked_struct marker (all_nodes pkg)" by (rule FindStruct_scan)
  show "FindStruct pkg marker = None \<longleftrightarrow> (\<forall>n \<in> set (all_nodes pkg). marked_struct marker n = None)"
    by (simp only: FindStruct_scan first_marked_struct_None)
next
  fix t assume "FindStruct pkg marker = Some t"
  then have "first_marked_struct marker (all_nodes pkg) = Some t" by (simp only: FindStruct_scan)
  then obtain n where "marked_struct marker n = Some t" by (blast dest: first_marked_struct_Some)
  then show "ts_Type t = StructType" by (rule marked_struct_Some)
qed

lemma TrimSpace_marker: "TrimSpace ''// raytasks'' = ''// raytasks''"
  by code_simp

lemma TrimSpace_doc_line:
  "TrimSpace ''// Tasks holds the remote tasks.'' = ''// Tasks holds the remote tasks.''"
  by code_simp

text \<open>
  Claim C8 as stated fails in three ways.  A marked alias declaration of a struct type
  (\<open>type T = struct{}\<close>) is returned, although the claim excludes aliases.  A marked
  struct declared inside a function body is returned in place of the first marked
  top-level declaration, because \<open>ast.Inspect\<close> descends into function bodies.  And a
  struct is returned whose doc comment group has the marker on its first line and
  another comment immediately before the declaration.
\<close>

theorem FindStruct_counterexample:
  "FindStruct alias_pkg ''// raytasks''
      = Some \<lparr>ts_Name = ''T'', ts_Assign = True, ts_Type = StructType\<rparr>
   \<and> spec_FindStruct alias_pkg ''// raytasks'' = None
   \<and> FindStruct nested_pkg ''// raytasks''
      = Some \<lparr>ts_Name = ''Inner'', ts_Assign = False, ts_Type = StructType\<rparr>
   \<and> spec_FindStruct nested_pkg ''// raytasks''
      = Some \<lparr>ts_Name = ''Outer'', ts_Assign = False, ts_Type = StructType\<rparr>
   \<and> FindStruct doc_pkg ''// raytasks''
      = Some \<lparr>ts_Name = ''Tasks'', ts_Assign = False, ts_Type = StructType\<rparr>
   \<and> spec_FindStruct doc_pkg ''// raytasks'' = None"
  by (simp add: FindStruct_def file_node_def alias_pkg_def nested_pkg_def doc_pkg_def
      TrimSpace_marker TrimSpace_doc_line
      spec_FindStruct_def spec_marked_struct_def is_plain_struct_spec_def the_TypeSpec_def
      List.map_filter_simps)

theorem FindStruct_first_marked_witness:
  "FindStruct nested_pkg ''// raytasks''
      = Some \<lparr>ts_Name = ''Inner'', ts_Assign = False, ts_Type = StructType\<rparr>
   \<and> first_marked_struct ''// raytasks'' (all_nodes nested_pkg)
      = Some \<lparr>ts_Name = ''Inner'', ts_Assign = False, ts_Type = StructType\<rparr>
   \<and> ts_Type \<lparr>ts_Name = ''Inner'', ts_Assign = False, ts_Type = StructType\<rparr> = StructType
   \<and> FindStruct nested_pkg ''// rayactors'' = None
   \<and> list_all (\<lambda>n. marked_struct ''// rayactors'' n = None) (all_nodes nested_pkg)"
proof -
  have a: "FindStruct nested_pkg ''// raytasks''
      = Some \<lparr>ts_Name = ''Inner'', ts_Assign = False, ts_Type = StructType\<rparr>"
    by (simp add: FindStruct_def file_node_def nested_pkg_def TrimSpace_marker)
  have b: "FindStruct nested_pkg ''// rayactors'' = None"
    by (simp add: FindStruct_def file_node_def nested_pkg_def TrimSpace_marker)
  note t = FindStruct_first_marked [of nested_pkg "''// raytasks''"]
  note u = FindStruct_first_marked [of nested_pkg "''// rayactors''"]
  from t a have c: "first_marked_struct ''// raytasks'' (all_nodes nested_pkg)
      = Some \<lparr>ts_Name = ''Inner'', ts_Assign = False, ts_Type = StructType\<rparr>" by simp
  from t a have d: "ts_Type \<lparr>ts_Name = ''Inner'', ts_Assign = False, ts_Type = StructType\<rparr> = StructType"
    by blast
  from u b have "\<forall>n \<in> set (all_nodes nested_pkg). marked_struct ''// rayactors'' n = None" by blast
  then have e: "list_all (\<lambda>n. marked_struct ''// rayactors'' n = None) (all_nodes nested_pkg)"
    by (simp add: list_all_iff)
  from a b c d e show ?thesis by blast
qed

section \<open>Properties of the method scanner\<close>

lemma params_loop_append:
  "params_loop cur variadic len (xs @ ys) j store =
     (let (ps, store') = params_loop cur variadic len xs j store;
          (qs, store'') = params_loop cur variadic len ys (j + length xs) store'
      in (ps @ qs, store''))"
  by (induction xs arbitrary: j store) (simp_all add: case_prod_beta Let_def)

lemma TrimPrefix_slice: "TrimPrefix (''[]'' @ s) ''[]'' = s"
  by (simp add: TrimPrefix_def HasPrefix_def)

lemma params_loop_length:
  "length (fst (params_loop cur variadic len xs j store)) = length xs"
  by (induction xs arbitrary: j store) (simp_all add: case_prod_beta Let_def)

lemma params_loop_variadic_last:
  assumes "len = length ps + 1"
  shows "fst (params_loop cur True len (ps @ [v]) 0 store)
     = fst (params_loop cur True len ps 0 store)
       @ [\<lparr>Param_Name = (if var_Name v = '''' then ''arg'' @ itoa (length ps) else var_Name v),
           Param_Type = TrimPrefix
             (fst (getTypeName (var_Type v) cur (snd (params_loop cur True len ps 0 store)))) ''[]''\<rparr>]"
  using assms by (simp add: params_loop_append case_prod_beta Let_def)

lemma methods_loop_split:
  assumes "methods_loop pkg (pre @ f # post) store = Inr (ms, store')"
    and "func_Exported f"
  shows "\<exists>ms0 st0 m st1 ms2.
           methods_loop pkg pre store = Inr (ms0, st0)
         \<and> FindMethods_method pkg f st0 = Inr (m, st1)
         \<and> methods_loop pkg post st1 = Inr (ms2, store')
         \<and> ms = ms0 @ m # ms2"
  using assms
proof (induction pre arbitrary: store ms)
  case Nil
  then show ?case by (auto split: sum.splits prod.splits)
next
  case (Cons g pre)
  show ?case
  proof (cases "func_Exported g")
    case False
    with Cons.prems have "methods_loop pkg (pre @ f # post) store = Inr (ms, store')" by simp
    from Cons.IH [OF this Cons.prems(2)] False show ?thesis by simp
  next
    case True
    with Cons.prems(1) obtain m0 s0 ms' where
      g: "FindMethods_method pkg g store = Inr (m0, s0)"
      and r: "methods_loop pkg (pre @ f # post) s0 = Inr (ms', store')"
      and ms: "ms = m0 # ms'"
      by (auto split: sum.splits prod.splits)
    from Cons.IH [OF r Cons.prems(2)] obtain ms0 st0 m st1 ms2 where
      "methods_loop pkg pre s0 = Inr (ms0, st0)"
      "FindMethods_method pkg f st0 = Inr (m, st1)"
      "methods_loop pkg post st1 = Inr (ms2, store')"
      "ms' = ms0 @ m # ms2"
      by blast
    with True g ms show ?thesis by simp
  qed
qed

lemma FindMethods_variadic_recorded:
  assumes scope: "pkg_Scope pkg structName = Some (NamedObject (pre @ method # post))"
    and found: "FindMethods pkg structName store = Inr (methods, store')"
    and exported: "func_Exported method"
    and variadic: "sig_Variadic (func_Sig method)"
    and params: "sig_Params (func_Sig method) = ps @ [v]"
    and slice: "var_Type v = Slice T"
  shows "\<exists>ms0 st0.
           methods_loop pkg pre store = Inr (ms0, st0)
         \<and> length ms0 < length methods
         \<and> Name (methods ! length ms0) = func_Name method
         \<and> IsVariadic (methods ! length ms0)
         \<and> length (Params (methods ! length ms0)) = length ps + 1
         \<and> Param_Type (last (Params (methods ! length ms0)))
             = fst (getTypeName T (pkg_Path pkg)
                 (snd (params_loop (pkg_Path pkg) True (length ps + 1) ps 0 st0)))
         \<and> Param_Type (last (Params (methods ! length ms0)))
             \<noteq> fst (getTypeName (Slice T) (pkg_Path pkg)
                 (snd (params_loop (pkg_Path pkg) True (length ps + 1) ps 0 st0)))"
proof -
  from scope found have "methods_loop pkg (pre @ method # post) store = Inr (methods, store')"
    by (simp add: FindMethods_def)
  from methods_loop_split [OF this exported] obtain ms0 st0 m st1 ms2 where
    pre: "methods_loop pkg pre store = Inr (ms0, st0)"
    and m: "FindMethods_method pkg method st0 = Inr (m, st1)"
    and ms: "methods = ms0 @ m # ms2"
    by blast
  let ?cur = "pkg_Path pkg"
  let ?st = "snd (params_loop ?cur True (length ps + 1) ps 0 st0)"
  let ?e = "fst (getTypeName T ?cur ?st)"
  from ms have idx: "length ms0 < length methods" and nth: "methods ! length ms0 = m" by simp_all
  from m have name: "Name m = func_Name method" and var: "IsVariadic m = sig_Variadic (func_Sig method)"
    and P: "Params m = fst (params_loop ?cur (sig_Variadic (func_Sig method))
              (length (sig_Params (func_Sig method))) (sig_Params (func_Sig method)) 0 st0)"
    by (auto simp: FindMethods_method_def Let_def case_prod_beta split: sum.splits)
  from P variadic params
  have P': "Params m = fst (params_loop ?cur True (length ps + 1) (ps @ [v]) 0 st0)" by simp
  have len: "length (Params m) = length ps + 1" by (simp add: P' params_loop_length)
  have "last (Params m)
      = \<lparr>Param_Name = (if var_Name v = '''' then ''arg'' @ itoa (length ps) else var_Name v),
         Param_Type = TrimPrefix (fst (getTypeName (var_Type v) ?cur ?st)) ''[]''\<rparr>"
    by (simp only: P' params_loop_variadic_last [OF refl] last_snoc)
  then have "Param_Type (last (Params m)) = TrimPrefix (fst (getTypeName (Slice T) ?cur ?st)) ''[]''"
    by (simp add: slice)
  also have "fst (getTypeName (Slice T) ?cur ?st) = ''[]'' @ ?e" by (simp add: case_prod_beta)
  finally have ty: "Param_Type (last (Params m)) = ?e" by (simp only: TrimPrefix_slice)
  have ne: "?e \<noteq> fst (getTypeName (Slice T) ?cur ?st)" by (simp add: case_prod_beta)
  from pre idx name var variadic len ty ne show ?thesis by (auto simp: nth)
qed

text \<open>A package whose type \<open>Tasks\<close> has an unexported method and the exported method
  \<open>Sleep(n int, ...time.Duration) error\<close> on a pointer receiver.\<close>

definition example_helper :: Func where
  "example_helper =
     \<lparr>func_Name = ''helper'', func_Exported = False, func_Pos = 50,
      func_Sig = \<lparr>sig_Recv = Named (Some \<lparr>obj_Name = ''Tasks'', obj_Pkg = Some ''example.com/mypkg''\<rparr>),
                  sig_Params = [], sig_Results = [], sig_Variadic = False\<rparr>\<rparr>"

definition example_Sleep :: Func where
  "example_Sleep =
     \<lparr>func_Name = ''Sleep'', func_Exported = True, func_Pos = 100,
      func_Sig =
        \<lparr>sig_Recv = Pointer (Named (Some \<lparr>obj_Name = ''Tasks'', obj_Pkg = Some ''example.com/mypkg''\<rparr>)),
         sig_Params =
           [\<lparr>var_Name = ''n'', var_Type = Basic OtherKind ''int''\<rparr>]
           @ [\<lparr>var_Name = '''',
                var_Type = Slice (Named (Some \<lparr>obj_Name = ''Duration'', obj_Pkg = Some ''time''\<rparr>))\<rparr>],
         sig_Results =
           [\<lparr>var_Name = '''', var_Type = Named (Some \<lparr>obj_Name = ''error'', obj_Pkg = None\<rparr>)\<rparr>],
         sig_Variadic = True\<rparr>\<rparr>"

definition variadic_pkg :: Package where
  "variadic_pkg =
     \<lparr>pkg_Path = ''example.com/mypkg'',
      pkg_Scope = (\<lambda>n. if n = ''Tasks''
                       then Some (NamedObject ([example_helper] @ example_Sleep # []))
                       else None),
      pkg_Syntax = []\<rparr>"

definition variadic_store :: ImportStore where
  "variadic_store = snd (AddImport NewImportStore ''time'')"

lemmas methods_eval = FindMethods_def FindMethods_method_def FindMethods_receiver_def
  findFuncDoc_def variadic_pkg_def example_helper_def example_Sleep_def variadic_store_def
  TrimPrefix_def HasPrefix_def itoa.simps digit_char_def

lemma FindMethods_method_total:
  assumes "FindMethods_receiver (sig_Recv (func_Sig f)) \<noteq> Inl NilPointerDereference"
  shows "\<exists>r. FindMethods_method pkg f store = Inr r"
proof -
  from assms obtain s where "FindMethods_receiver (sig_Recv (func_Sig f)) = Inr s"
    by (cases "FindMethods_receiver (sig_Recv (func_Sig f))") (auto intro: error.exhaust)
  then show ?thesis by (simp add: FindMethods_method_def Let_def case_prod_beta)
qed

lemma methods_loop_total:
  assumes "\<forall>f \<in> set fs. func_Exported f \<longrightarrow>
             FindMethods_receiver (sig_Recv (func_Sig f)) \<noteq> Inl NilPointerDereference"
  shows "\<exists>r. methods_loop pkg fs store = Inr r"
  using assms
proof (induction fs arbitrary: store)
  case Nil
  show ?case by simp
next
  case (Cons f fs)
  show ?case
  proof (cases "func_Exported f")
    case False
    with Cons show ?thesis by simp
  next
    case True
    with Cons.prems obtain m st where m: "FindMethods_method pkg f store = Inr (m, st)"
      using FindMethods_method_total [of f pkg store] by fastforce
    from Cons.IH [of st] Cons.prems obtain ms st' where "methods_loop pkg fs st = Inr (ms, st')"
      by fastforce
    with True m show ?thesis by simp
  qed
qed

text \<open>
  Claim C5.  Let a method of the scanned type be exported and variadic, with last
  parameter of type slice of \<open>T\<close>.  \<open>FindMethods\<close> returns when no exported method has
  a receiver whose named type lacks its type name, and when it returns, the method it records
  for it (at the position after the methods recorded for the earlier ones) has
  \<open>IsVariadic\<close> set, one parameter per formal parameter, and as type of the last
  parameter the canonical name of \<open>T\<close> in the store reached after the earlier
  parameters, which is not the canonical name of the slice of \<open>T\<close>.
\<close>

theorem FindMethods_variadic:
  assumes scope: "pkg_Scope pkg structName = Some (NamedObject (pre @ method # post))"
    and exported: "func_Exported method"
    and variadic: "sig_Variadic (func_Sig method)"
    and params: "sig_Params (func_Sig method) = ps @ [v]"
    and slice: "var_Type v = Slice T"
  shows "((\<forall>f \<in> set (pre @ method # post). func_Exported f \<longrightarrow>
             FindMethods_receiver (sig_Recv (func_Sig f)) \<noteq> Inl NilPointerDereference)
          \<longrightarrow> (\<exists>r. FindMethods pkg structName store = Inr r))
       \<and> (\<forall>methods store'. FindMethods pkg structName store = Inr (methods, store') \<longrightarrow>
            (\<exists>ms0 st0.
               methods_loop pkg pre store = Inr (ms0, st0)
             \<and> length ms0 < length methods
             \<and> Name (methods ! length ms0) = func_Name method
             \<and> IsVariadic (methods ! length ms0)
             \<and> length (Params (methods ! length ms0)) = length ps + 1
             \<and> Param_Type (last (Params (methods ! length ms0)))
                 = fst (getTypeName T (pkg_Path pkg)
                     (snd (params_loop (pkg_Path pkg) True (length ps + 1) ps 0 st0)))
             \<and> Param_Type (last (Params (methods ! length ms0)))
                 \<noteq> fst (getTypeName (Slice T) (pkg_Path pkg)
                     (snd (params_loop (pkg_Path pkg) True (length ps + 1) ps 0 st0)))))"
proof (intro conjI allI impI)
  assume "\<forall>f \<in> set (pre @ method # post). func_Exported f \<longrightarrow>
             FindMethods_receiver (sig_Recv (func_Sig f)) \<noteq> Inl NilPointerDereference"
  then have "\<exists>r. methods_loop pkg (pre @ method # post) store = Inr r"
    by (rule methods_loop_total)
  with scope show "\<exists>r. FindMethods pkg structName store = Inr r"
    by (simp add: FindMethods_def)
next
  fix methods store'
  assume found: "FindMethods pkg structName store = Inr (methods, store')"
  show "\<exists>ms0 st0.
               methods_loop pkg pre store = Inr (ms0, st0)
             \<and> length ms0 < length methods
             \<and> Name (methods ! length ms0) = func_Name method
             \<and> IsVariadic (methods ! length ms0)
             \<and> length (Params (methods ! length ms0)) = length ps + 1
             \<and> Param_Type (last (Params (methods ! length ms0)))
                 = fst (getTypeName T (pkg_Path pkg)
                     (snd (params_loop (pkg_Path pkg) True (length ps + 1) ps 0 st0)))
             \<and> Param_Type (last (Params (methods ! length ms0)))
                 \<noteq> fst (getTypeName (Slice T) (pkg_Path pkg)
                     (snd (params_loop (pkg_Path pkg) True (length ps + 1) ps 0 st0)))"
    by (rule FindMethods_variadic_recorded [OF scope found exported variadic params slice])
qed

theorem FindMethods_variadic_witness:
  "pkg_Scope variadic_pkg ''Tasks'' = Some (NamedObject ([example_helper] @ example_Sleep # []))
   \<and> func_Exported example_Sleep
   \<and> sig_Variadic (func_Sig example_Sleep)
   \<and> list_all (\<lambda>f. \<not> func_Exported f \<or>
          FindMethods_receiver (sig_Recv (func_Sig f)) \<noteq> Inl NilPointerDereference)
        ([example_helper] @ example_Sleep # [])
   \<and> (\<exists>r. FindMethods variadic_pkg ''Tasks'' NewImportStore = Inr r)
   \<and> FindMethods variadic_pkg ''Tasks'' NewImportStore =
       Inr ([\<lparr>ReceiverType = ''*Tasks'', Name = ''Sleep'',
               Params = [\<lparr>Param_Name = ''n'', Param_Type = ''int''\<rparr>,
                         \<lparr>Param_Name = ''arg1'', Param_Type = ''time.Duration''\<rparr>],
               Results = [\<lparr>Result_Type = ''error''\<rparr>],
               IsVariadic = True, Doc = ''''\<rparr>], variadic_store)
   \<and> (\<exists>ms0 st0. methods_loop variadic_pkg [example_helper] NewImportStore = Inr (ms0, st0)
         \<and> fst (getTypeName (Named (Some \<lparr>obj_Name = ''Duration'', obj_Pkg = Some ''time''\<rparr>))
               ''example.com/mypkg''
               (snd (params_loop ''example.com/mypkg'' True 2
                  [\<lparr>var_Name = ''n'', var_Type = Basic OtherKind ''int''\<rparr>] 0 st0)))
             = ''time.Duration'')"
proof -
  let ?m = "\<lparr>ReceiverType = ''*Tasks'', Name = ''Sleep'',
               Params = [\<lparr>Param_Name = ''n'', Param_Type = ''int''\<rparr>,
                         \<lparr>Param_Name = ''arg1'', Param_Type = ''time.Duration''\<rparr>],
               Results = [\<lparr>Result_Type = ''error''\<rparr>],
               IsVariadic = True, Doc = ''''\<rparr>"
  let ?v = "\<lparr>var_Name = '''',
                var_Type = Slice (Named (Some \<lparr>obj_Name = ''Duration'', obj_Pkg = Some ''time''\<rparr>))\<rparr>"
  let ?n = "\<lparr>var_Name = ''n'', var_Type = Basic OtherKind ''int''\<rparr>"
  have scope: "pkg_Scope variadic_pkg ''Tasks''
      = Some (NamedObject ([example_helper] @ example_Sleep # []))"
    by (simp add: variadic_pkg_def)
  have found: "FindMethods variadic_pkg ''Tasks'' NewImportStore = Inr ([?m], variadic_store)"
    by (simp add: methods_eval store_eval)
  have exported: "func_Exported example_Sleep" by (simp add: example_Sleep_def)
  have variadic: "sig_Variadic (func_Sig example_Sleep)" by (simp add: example_Sleep_def)
  have params: "sig_Params (func_Sig example_Sleep) = [?n] @ [?v]"
    by (simp add: example_Sleep_def)
  have slice: "var_Type ?v = Slice (Named (Some \<lparr>obj_Name = ''Duration'', obj_Pkg = Some ''time''\<rparr>))"
    by simp
  have ok: "list_all (\<lambda>f. \<not> func_Exported f \<or>
          FindMethods_receiver (sig_Recv (func_Sig f)) \<noteq> Inl NilPointerDereference)
        ([example_helper] @ example_Sleep # [])"
    by (simp add: example_helper_def example_Sleep_def FindMethods_receiver_def)
  note inst = FindMethods_variadic [OF scope exported variadic params slice, of NewImportStore]
  from ok have "\<forall>f \<in> set ([example_helper] @ example_Sleep # []). func_Exported f \<longrightarrow>
             FindMethods_receiver (sig_Recv (func_Sig f)) \<noteq> Inl NilPointerDereference"
    unfolding list_all_iff by blast
  with inst have total: "\<exists>r. FindMethods variadic_pkg ''Tasks'' NewImportStore = Inr r" by blast
  from inst found obtain ms0 st0 where
    pre: "methods_loop variadic_pkg [example_helper] NewImportStore = Inr (ms0, st0)"
    and ty: "Param_Type (last (Params ([?m] ! length ms0)))
             = fst (getTypeName (Named (Some \<lparr>obj_Name = ''Duration'', obj_Pkg = Some ''time''\<rparr>))
                 (pkg_Path variadic_pkg)
                 (snd (params_loop (pkg_Path variadic_pkg) True (length [?n] + 1) [?n] 0 st0)))"
    and idx: "length ms0 < length [?m]"
    by blast
  from idx have z: "length ms0 = 0" by simp
  have path: "pkg_Path variadic_pkg = ''example.com/mypkg''" by (simp add: variadic_pkg_def)
  have two: "length [?n] + 1 = 2" by simp
  have lhs: "Param_Type (last (Params ([?m] ! 0))) = ''time.Duration''" by simp
  from ty have "fst (getTypeName (Named (Some \<lparr>obj_Name = ''Duration'', obj_Pkg = Some ''time''\<rparr>))
               ''example.com/mypkg''
               (snd (params_loop ''example.com/mypkg'' True 2 [?n] 0 st0)))
             = ''time.Duration''"
    unfolding z path two lhs by (rule sym)
  with pre scope found exported variadic ok total show ?thesis by blast
qed

end
